theory Spec2Isabelle
  imports Main "HOL-Library.Sublist" "HOL-Library.AList"
begin

section \<open>Values, exceptions and files\<close>

text \<open>
  A shallow embedding of the three stage functions of \<^verbatim>\<open>main.py\<close>:
  \<^verbatim>\<open>process_uploaded_files\<close>, \<^verbatim>\<open>standardize_resumes\<close> and \<^verbatim>\<open>upload_to_mongodb\<close>.

  Python values that travel through \<^verbatim>\<open>json.dump\<close> / \<^verbatim>\<open>json.load\<close> are JSON values. A
  dictionary keeps insertion order, so an object is an association list and item
  assignment is \<^const>\<open>AList.update\<close> (replace in place, else append). Floats are left out.
\<close>

datatype json =
    JNull
  | JBool bool
  | JNum int
  | JStr string
  | JArr "json list"
  | JObj "(string \<times> json) list"

text \<open>
  Exceptions carry their class and the text of \<^verbatim>\<open>str(e)\<close>. Every class listed derives from
  \<^verbatim>\<open>Exception\<close>; \<^verbatim>\<open>JSONDecodeError\<close> and \<^verbatim>\<open>UnicodeEncodeError\<close> derive from \<^verbatim>\<open>ValueError\<close>,
  the others do not.
\<close>

datatype pyclass =
    ValueError
  | JSONDecodeError
  | UnicodeEncodeError
  | TypeError
  | AttributeError
  | OSError
  | FileNotFoundError
  | IsADirectoryError
  | KeyError
  | RuntimeError
  | ConnectionError

datatype exn = Exn (cls: pyclass) (msg: string)

fun is_ValueError :: "exn \<Rightarrow> bool" where
  "is_ValueError (Exn ValueError m) = True"
| "is_ValueError (Exn JSONDecodeError m) = True"
| "is_ValueError (Exn UnicodeEncodeError m) = True"
| "is_ValueError (Exn c m) = False"

text \<open>
  The staging directories of lines 47-49: \<^verbatim>\<open>temp_dir\<close>, \<^verbatim>\<open>parsed_dir\<close>, \<^verbatim>\<open>standardized_dir\<close>.
  A path is a directory and a file name; uploaded names are plain base names. The two
  staging directories exist (lines 51-52), so under \<^verbatim>\<open>temp_dir\<close> the names \<^verbatim>\<open>parsed\<close> and
  \<^verbatim>\<open>standardized\<close> are directories.
\<close>

datatype dir = TempDir | ParsedDir | StandardizedDir

type_synonym path = "dir \<times> string"

text \<open>
  A file holds what was written to it: text or bytes (\<open>Plain\<close>), or the object handed to
  \<^verbatim>\<open>json.dump\<close> (\<open>JsonFile\<close>), which \<^verbatim>\<open>json.load\<close> gives back as it was.
\<close>

datatype fdata = Plain string | JsonFile json

text \<open>
  What \<^verbatim>\<open>with open(p, "w") as f: ...\<close> does to one file: the data is written; or \<^verbatim>\<open>open\<close>
  raises and the file system is as before; or \<^verbatim>\<open>open\<close> creates or truncates the file and the
  \<^verbatim>\<open>write\<close> or \<^verbatim>\<open>json.dump\<close> inside raises, leaving in the file the text that got through.
\<close>

datatype fault =
    Written
  | OpenFails exn
  | WriteFails exn string

datatype ui_event =
    Write string
  | Warning string
  | Error string
  | Status string
  | Placeholder
  | Progress nat nat

record uploaded_file =
  name :: string
  buffer :: string

section \<open>Collaborators\<close>

text \<open>
  The modules \<^verbatim>\<open>llama_resume_parser\<close>, \<^verbatim>\<open>standardizer\<close> and \<^verbatim>\<open>db_manager\<close>, the clock, the
  temporary directory, the operating system's answer to a write, and the interpreter's
  \<^verbatim>\<open>json.loads\<close>, \<^verbatim>\<open>str.lower\<close> and \<^verbatim>\<open>str.strip\<close> (both follow the Unicode tables) are
  parameters. A call that may raise returns the exception on the left. The LLM and the
  store may answer differently on every call: they are indexed by the number of calls made
  before; \<^verbatim>\<open>ResumeParser()\<close> is constructed once per turn of the parse loop and is indexed by
  the turn.
\<close>

record env =
  tmp_root :: string
  clock :: "nat \<Rightarrow> string"
  json_loads :: "string \<Rightarrow> string + json"
  str_lower :: "string \<Rightarrow> string"
  str_strip :: "string \<Rightarrow> string"
  write_fault :: "path \<Rightarrow> fdata \<Rightarrow> fault"
  parser_init :: "nat \<Rightarrow> exn option"
  SUPPORTED_EXTENSIONS :: "string list"
  parse_resume :: "string \<Rightarrow> string \<Rightarrow> exn + json"
  standardizer_init :: "exn option"
  make_standardizer_prompt :: "json \<Rightarrow> json \<Rightarrow> exn + string"
  call_azure_llm :: "nat \<Rightarrow> string \<Rightarrow> exn + string"
  clean_llm_response :: "string \<Rightarrow> exn + string"
  db_init :: "exn option"
  insert_or_update_resume :: "nat \<Rightarrow> json \<Rightarrow> exn option"

section \<open>Session state and the world around it\<close>

text \<open>
  The six \<^verbatim>\<open>st.session_state\<close> entries of lines 33-44, the staging file system, what the
  page shows, and three observation logs: the paths handed to \<^verbatim>\<open>parse_resume\<close>, the prompts
  sent to the LLM (each with the file it was sent for) and the documents handed to the
  store. \<open>count\<close> is the running stage's local counter (\<^verbatim>\<open>processed_count\<close>,
  \<^verbatim>\<open>standardized_count\<close>, \<^verbatim>\<open>uploaded_count\<close>); \<open>ticks\<close> counts the calls of
  \<^verbatim>\<open>datetime.now()\<close>.
\<close>

record state =
  processing_complete :: bool
  standardizing_complete :: bool
  db_upload_complete :: bool
  processed_files :: "path list"
  standardized_files :: "path list"
  uploaded_files :: "string list"
  fs :: "path \<rightharpoonup> fdata"
  ui :: "ui_event list"
  ticks :: nat
  count :: nat
  parse_log :: "string list"
  llm_log :: "(path \<times> string) list"
  db_log :: "json list"

section \<open>Strings and paths\<close>

text \<open>\<^verbatim>\<open>str(n)\<close> of a natural number, digit by digit.\<close>

definition digit_char :: "nat \<Rightarrow> char" where
  "digit_char n = ''0123456789'' ! (n mod 10)"

fun str_nat :: "nat \<Rightarrow> string" where
  "str_nat n = (if n < 10 then [digit_char n] else str_nat (n div 10) @ [digit_char (n mod 10)])"

text \<open>\<^verbatim>\<open>str.rfind\<close> of one character: the last index that holds it.\<close>

fun rfind :: "char \<Rightarrow> string \<Rightarrow> nat option" where
  "rfind c [] = None"
| "rfind c (x # xs) =
     (case rfind c xs of
        Some i \<Rightarrow> Some (Suc i)
      | None \<Rightarrow> if x = c then Some 0 else None)"

text \<open>
  \<^verbatim>\<open>PurePath.suffix\<close> and \<^verbatim>\<open>PurePath.stem\<close> of a base name:
  \<^verbatim>\<open>i = name.rfind('.'); if 0 < i < len(name) - 1: name[i:] / name[:i]\<close>.
\<close>

definition path_suffix :: "string \<Rightarrow> string" where
  "path_suffix nm =
     (case rfind CHR ''.'' nm of
        None \<Rightarrow> []
      | Some i \<Rightarrow> if 0 < i \<and> i < length nm - 1 then drop i nm else [])"

definition path_stem :: "string \<Rightarrow> string" where
  "path_stem nm =
     (case rfind CHR ''.'' nm of
        None \<Rightarrow> nm
      | Some i \<Rightarrow> if 0 < i \<and> i < length nm - 1 then take i nm else nm)"

definition str_dir :: "env \<Rightarrow> dir \<Rightarrow> string" where
  "str_dir e d =
     (case d of
        TempDir \<Rightarrow> tmp_root e @ ''/resume_processor''
      | ParsedDir \<Rightarrow> tmp_root e @ ''/resume_processor/parsed''
      | StandardizedDir \<Rightarrow> tmp_root e @ ''/resume_processor/standardized'')"

definition str_path :: "env \<Rightarrow> path \<Rightarrow> string" where
  "str_path e p = str_dir e (fst p) @ ''/'' @ snd p"

section \<open>Python operations on JSON values\<close>

fun truthy :: "json \<Rightarrow> bool" where
  "truthy JNull = False"
| "truthy (JBool b) = b"
| "truthy (JNum n) = (n \<noteq> 0)"
| "truthy (JStr s) = (s \<noteq> [])"
| "truthy (JArr xs) = (xs \<noteq> [])"
| "truthy (JObj kvs) = (kvs \<noteq> [])"

fun type_name :: "json \<Rightarrow> string" where
  "type_name JNull = ''NoneType''"
| "type_name (JBool b) = ''bool''"
| "type_name (JNum n) = ''int''"
| "type_name (JStr s) = ''str''"
| "type_name (JArr xs) = ''list''"
| "type_name (JObj kvs) = ''dict''"

definition no_attribute :: "json \<Rightarrow> string \<Rightarrow> exn" where
  "no_attribute v a =
     Exn AttributeError ([CHR 0x27] @ type_name v @ [CHR 0x27] @ '' object has no attribute '' @ [CHR 0x27] @ a @ [CHR 0x27])"

text \<open>\<^verbatim>\<open>v[key] = x\<close> with a string key: only a dict accepts it.\<close>

fun setitem :: "json \<Rightarrow> string \<Rightarrow> json \<Rightarrow> exn + json" where
  "setitem (JObj kvs) k x = Inr (JObj (AList.update k x kvs))"
| "setitem (JArr xs) k x = Inl (Exn TypeError ''list indices must be integers or slices, not str'')"
| "setitem v k x =
     Inl (Exn TypeError ([CHR 0x27] @ type_name v @ [CHR 0x27] @ '' object does not support item assignment''))"

text \<open>\<^verbatim>\<open>raw.get(key, default)\<close>: an attribute of dicts only.\<close>

fun dict_of :: "json \<Rightarrow> exn + (string \<times> json) list" where
  "dict_of (JObj kvs) = Inr kvs"
| "dict_of v = Inl (no_attribute v ''get'')"

definition get_default :: "(string \<times> json) list \<Rightarrow> string \<Rightarrow> json \<Rightarrow> json" where
  "get_default kvs k d = (case map_of kvs k of None \<Rightarrow> d | Some v \<Rightarrow> v)"

text \<open>\<^verbatim>\<open>content.strip()\<close>: an attribute of strings only.\<close>

fun strip_of :: "env \<Rightarrow> json \<Rightarrow> exn + string" where
  "strip_of e (JStr s) = Inr (str_strip e s)"
| "strip_of e v = Inl (no_attribute v ''strip'')"

text \<open>
  \<^verbatim>\<open>with open(p, encoding="utf-8") as f: json.load(f)\<close>. A missing file raises; a file that
  was written as text is decoded by \<^verbatim>\<open>json.loads\<close>.
\<close>

definition load_json :: "env \<Rightarrow> (path \<rightharpoonup> fdata) \<Rightarrow> path \<Rightarrow> exn + json" where
  "load_json e files p =
     (case files p of
        None \<Rightarrow> Inl (Exn FileNotFoundError (''[Errno 2] No such file or directory: '' @ [CHR 0x27] @ str_path e p @ [CHR 0x27]))
      | Some (JsonFile j) \<Rightarrow> Inr j
      | Some (Plain s) \<Rightarrow>
          (case json_loads e s of
             Inl m \<Rightarrow> Inl (Exn JSONDecodeError m)
           | Inr j \<Rightarrow> Inr j))"

text \<open>
  \<^verbatim>\<open>with open(p, "w") as f: ...\<close> on the staging file system: the exception it raises, if
  any, and the files it leaves. Opening a directory for writing raises
  \<^verbatim>\<open>IsADirectoryError\<close>; everything else is the operating system's answer.
\<close>

definition is_directory :: "path \<Rightarrow> bool" where
  "is_directory p \<longleftrightarrow> p = (TempDir, ''parsed'') \<or> p = (TempDir, ''standardized'')"

definition write_error :: "env \<Rightarrow> path \<Rightarrow> fdata \<Rightarrow> exn option" where
  "write_error e p d =
     (if is_directory p then
        Some (Exn IsADirectoryError (''[Errno 21] Is a directory: '' @ [CHR 0x27] @ str_path e p @ [CHR 0x27]))
      else
        (case write_fault e p d of
           Written \<Rightarrow> None
         | OpenFails x \<Rightarrow> Some x
         | WriteFails x left \<Rightarrow> Some x))"

definition written :: "env \<Rightarrow> path \<Rightarrow> fdata \<Rightarrow> (path \<rightharpoonup> fdata) \<Rightarrow> (path \<rightharpoonup> fdata)" where
  "written e p d files =
     (if is_directory p then files
      else
        (case write_fault e p d of
           Written \<Rightarrow> files(p \<mapsto> d)
         | OpenFails x \<Rightarrow> files
         | WriteFails x left \<Rightarrow> files(p \<mapsto> Plain left)))"

text \<open>\<^verbatim>\<open>for i, x in enumerate(xs): body\<close>, the index starting where the caller says.\<close>

fun for_enumerate :: "(nat \<Rightarrow> 'a \<Rightarrow> 's \<Rightarrow> 's) \<Rightarrow> nat \<Rightarrow> 'a list \<Rightarrow> 's \<Rightarrow> 's" where
  "for_enumerate body i [] s = s"
| "for_enumerate body i (x # xs) s = for_enumerate body (Suc i) xs (body i x s)"

text \<open>
  The same loop when a turn can raise outside every \<^verbatim>\<open>try\<close>: the exception ends the loop
  and leaves the function, with the state as the turn left it.
\<close>

fun for_enumerate_try :: "(nat \<Rightarrow> 'a \<Rightarrow> 's \<Rightarrow> exn option \<times> 's) \<Rightarrow> nat \<Rightarrow> 'a list \<Rightarrow> 's \<Rightarrow> exn option \<times> 's" where
  "for_enumerate_try body i [] s = (None, s)"
| "for_enumerate_try body i (x # xs) s =
     (case body i x s of
        (Some raised, s') \<Rightarrow> (Some raised, s')
      | (None, s') \<Rightarrow> for_enumerate_try body (Suc i) xs s')"

definition show_ui :: "ui_event \<Rightarrow> state \<Rightarrow> state" where
  "show_ui ev s = s\<lparr>ui := ui s @ [ev]\<rparr>"

definition write_file :: "env \<Rightarrow> path \<Rightarrow> fdata \<Rightarrow> state \<Rightarrow> state" where
  "write_file e p d s = s\<lparr>fs := written e p d (fs s)\<rparr>"

text \<open>The report of a caught exception: \<^verbatim>\<open>f"Error {doing} {name}: {str(e)}"\<close>.\<close>

definition error_line :: "string \<Rightarrow> string \<Rightarrow> exn \<Rightarrow> ui_event" where
  "error_line doing nm x = Error (''Error '' @ doing @ '' '' @ nm @ '': '' @ msg x)"

text \<open>The status line of a loop turn: \<^verbatim>\<open>f"{verb} {i+1}/{total_files}: {name}"\<close>.\<close>

definition summary_line :: "string \<Rightarrow> nat \<Rightarrow> nat \<Rightarrow> string \<Rightarrow> ui_event" where
  "summary_line verb n total_files what =
     Status ([CHR 0xE2, CHR 0x9C, CHR 0x85] @ '' '' @ verb @ '' '' @ str_nat n @ ''/'' @ str_nat total_files @ '' '' @ what)"

definition status_line :: "string \<Rightarrow> nat \<Rightarrow> nat \<Rightarrow> string \<Rightarrow> ui_event" where
  "status_line verb total_files i nm =
     Status (verb @ '' '' @ str_nat (i + 1) @ ''/'' @ str_nat total_files @ '': '' @ nm)"

section \<open>Stage 1: \<^verbatim>\<open>process_uploaded_files\<close>\<close>

definition temp_path :: "string \<Rightarrow> path" where
  "temp_path file_name = (TempDir, file_name)"

definition parsed_path :: "string \<Rightarrow> path" where
  "parsed_path file_name = (ParsedDir, path_stem file_name @ ''.json'')"

definition supported :: "env \<Rightarrow> string \<Rightarrow> bool" where
  "supported e file_name \<longleftrightarrow> str_lower e (path_suffix file_name) \<in> set (SUPPORTED_EXTENSIONS e)"

text \<open>
  Lines 85-100, the \<^verbatim>\<open>try\<close> block of one file. \<^verbatim>\<open>parse_resume\<close> reads the temporary file
  just written, so it is given that path and those bytes. \<^verbatim>\<open>datetime.now()\<close> is evaluated
  before the item assignment that may raise. The write of lines 92-93 is inside the
  \<^verbatim>\<open>try\<close>: when it raises, the error is reported and the file is not listed.
\<close>

definition unsupported_warning :: "string \<Rightarrow> string \<Rightarrow> ui_event" where
  "unsupported_warning file_name file_ext =
     Warning (''Skipping '' @ file_name @ '': Unsupported file type '' @ file_ext)"

definition no_content_warning :: "string \<Rightarrow> ui_event" where
  "no_content_warning file_name = Warning (''No content extracted from '' @ file_name)"

definition parse_error :: "string \<Rightarrow> exn \<Rightarrow> state \<Rightarrow> state" where
  "parse_error file_name x s = show_ui (error_line ''parsing'' file_name x) s"

text \<open>Lines 88-89: the two item assignments on what \<^verbatim>\<open>parse_resume\<close> returned.\<close>

definition parse_stamp :: "string \<Rightarrow> string \<Rightarrow> json \<Rightarrow> exn + json" where
  "parse_stamp file_name now parsed_resume =
     (case setitem parsed_resume ''timestamp'' (JStr now) of
        Inl x \<Rightarrow> Inl x
      | Inr stamped \<Rightarrow> setitem stamped ''original_filename'' (JStr file_name))"

definition parse_try :: "env \<Rightarrow> uploaded_file \<Rightarrow> state \<Rightarrow> state" where
  "parse_try e uploaded_file s =
     (let file_name = name uploaded_file;
          temp_file_path = str_path e (temp_path file_name);
          s1 = s\<lparr>parse_log := parse_log s @ [temp_file_path]\<rparr>
      in case parse_resume e temp_file_path (buffer uploaded_file) of
           Inl x \<Rightarrow> parse_error file_name x s1
         | Inr parsed_resume \<Rightarrow>
             if truthy parsed_resume then
               (let now = clock e (ticks s1);
                    s2 = s1\<lparr>ticks := Suc (ticks s1)\<rparr>
                in case parse_stamp file_name now parsed_resume of
                     Inl x \<Rightarrow> parse_error file_name x s2
                   | Inr doc \<Rightarrow>
                       (let output_path = parsed_path file_name;
                            s3 = write_file e output_path (JsonFile doc) s2
                        in case write_error e output_path (JsonFile doc) of
                             Some x \<Rightarrow> parse_error file_name x s3
                           | None \<Rightarrow>
                               s3\<lparr>processed_files := processed_files s3 @ [output_path],
                                  count := Suc (count s3)\<rparr>))
             else show_ui (no_content_warning file_name) s1)"

text \<open>
  Lines 70-102, one turn of the loop. The temporary file is written (lines 75-76) and the
  parser is constructed (line 79) before the extension is looked at and outside the
  \<^verbatim>\<open>try\<close>: an exception of either leaves the function. \<^verbatim>\<open>continue\<close> on an unsupported
  extension skips the progress update.
\<close>

definition parse_item :: "env \<Rightarrow> nat \<Rightarrow> nat \<Rightarrow> uploaded_file \<Rightarrow> state \<Rightarrow> exn option \<times> state" where
  "parse_item e total_files i uploaded_file s =
     (let file_name = name uploaded_file;
          s1 = show_ui (status_line ''Processing'' total_files i file_name) s;
          s2 = write_file e (temp_path file_name) (Plain (buffer uploaded_file)) s1
      in case write_error e (temp_path file_name) (Plain (buffer uploaded_file)) of
           Some x \<Rightarrow> (Some x, s2)
         | None \<Rightarrow>
             (let file_ext = str_lower e (path_suffix file_name)
              in case parser_init e i of
                   Some x \<Rightarrow> (Some x, s2)
                 | None \<Rightarrow>
                     if file_ext \<notin> set (SUPPORTED_EXTENSIONS e) then
                       (None, show_ui (unsupported_warning file_name file_ext) s2)
                     else (None, show_ui (Progress (i + 1) total_files) (parse_try e uploaded_file s2))))"

text \<open>Lines 56-66: the flags and the list are reset, the header is shown.\<close>

definition parse_start :: "uploaded_file list \<Rightarrow> state \<Rightarrow> state" where
  "parse_start uploaded s =
     (let s1 = s\<lparr>processing_complete := False, standardizing_complete := False,
                  db_upload_complete := False, processed_files := []\<rparr>;
          s2 = show_ui (Write (''Processing '' @ str_nat (length uploaded) @ '' files...'')) s1;
          s3 = show_ui Placeholder (show_ui (Progress 0 1) s2)
      in s3\<lparr>count := 0\<rparr>)"

text \<open>
  Lines 54-105. The first component of the result is the exception that leaves the
  function, if one does; the summary and the completion flag are then not reached.
\<close>

definition parse_finish :: "nat \<Rightarrow> state \<Rightarrow> state" where
  "parse_finish total_files s =
     (show_ui (summary_line ''Processed'' (count s) total_files ''files'') s)\<lparr>processing_complete := True\<rparr>"

definition process_uploaded_files :: "env \<Rightarrow> uploaded_file list \<Rightarrow> state \<Rightarrow> exn option \<times> state" where
  "process_uploaded_files e uploaded s =
     (let total_files = length uploaded;
          files_to_process = uploaded
      in case for_enumerate_try (parse_item e total_files) 0 files_to_process (parse_start uploaded s) of
           (Some x, s1) \<Rightarrow> (Some x, s1)
         | (None, s1) \<Rightarrow> (None, parse_finish total_files s1))"

section \<open>Stage 2: \<^verbatim>\<open>standardize_resumes\<close>\<close>

definition standardized_path :: "path \<Rightarrow> path" where
  "standardized_path file_path = (StandardizedDir, snd file_path)"

definition raw_log_path :: "path \<Rightarrow> path" where
  "raw_log_path file_path = (StandardizedDir, path_stem (snd file_path) @ ''_raw.md'')"

definition empty_content_warning :: "path \<Rightarrow> ui_event" where
  "empty_content_warning file_path = Warning (''Empty content in '' @ snd file_path @ '', skipping.'')"

definition standardize_error :: "path \<Rightarrow> exn \<Rightarrow> state \<Rightarrow> state" where
  "standardize_error file_path x s =
     show_ui (error_line ''standardizing'' (snd file_path) x) s"

text \<open>
  Lines 144-154, up to the prompt: read the parsed record, take \<^verbatim>\<open>content\<close> and \<^verbatim>\<open>links\<close>,
  stop on blank content, build the prompt. Nothing is written here.
\<close>

datatype prepared =
    Raised exn
  | Blank
  | Ready "(string \<times> json) list" string

definition prepare :: "env \<Rightarrow> (path \<rightharpoonup> fdata) \<Rightarrow> path \<Rightarrow> prepared" where
  "prepare e files file_path =
     (case load_json e files file_path of
        Inl x \<Rightarrow> Raised x
      | Inr loaded \<Rightarrow>
          (case dict_of loaded of
             Inl x \<Rightarrow> Raised x
           | Inr raw \<Rightarrow>
               (let content = get_default raw ''content'' (JStr []);
                    links = get_default raw ''links'' (JArr [])
                in case strip_of e content of
                     Inl x \<Rightarrow> Raised x
                   | Inr stripped \<Rightarrow>
                       if stripped = [] then Blank
                       else
                         (case make_standardizer_prompt e content links of
                            Inl x \<Rightarrow> Raised x
                          | Inr prompt \<Rightarrow> Ready raw prompt))))"

text \<open>Lines 162-163: \<^verbatim>\<open>clean_llm_response\<close>, then \<^verbatim>\<open>json.loads\<close>.\<close>

definition decode :: "env \<Rightarrow> string \<Rightarrow> exn + json" where
  "decode e raw_response =
     (case clean_llm_response e raw_response of
        Inl x \<Rightarrow> Inl x
      | Inr cleaned_json \<Rightarrow>
          (case json_loads e cleaned_json of
             Inl m \<Rightarrow> Inl (Exn JSONDecodeError m)
           | Inr parsed_json \<Rightarrow> Inr parsed_json))"

text \<open>Lines 166-169: the three item assignments, the last one only if the record has the key.\<close>

definition stamp :: "env \<Rightarrow> path \<Rightarrow> (string \<times> json) list \<Rightarrow> string \<Rightarrow> json \<Rightarrow> exn + json" where
  "stamp e file_path raw now parsed_json =
     (case setitem parsed_json ''timestamp'' (JStr now) of
        Inl x \<Rightarrow> Inl x
      | Inr j1 \<Rightarrow>
          (case setitem j1 ''source_file'' (JStr (str_path e file_path)) of
             Inl x \<Rightarrow> Inl x
           | Inr j2 \<Rightarrow>
               (case map_of raw ''original_filename'' of
                  None \<Rightarrow> Inr j2
                | Some v \<Rightarrow> setitem j2 ''original_filename'' v)))"

text \<open>
  Lines 162-175: sanitize, parse, stamp, write, append. It runs after the raw response has
  been logged; \<^verbatim>\<open>datetime.now()\<close> is evaluated before the first item assignment. \<^verbatim>\<open>open\<close>
  of line 171 creates the artifact before \<^verbatim>\<open>json.dump\<close> of line 172 writes it: when the dump
  raises, the error is reported, the file is not listed, and what was written stays.
\<close>

definition standardize_finish :: "env \<Rightarrow> path \<Rightarrow> (string \<times> json) list \<Rightarrow> string \<Rightarrow> state \<Rightarrow> state" where
  "standardize_finish e file_path raw raw_response s =
     (case decode e raw_response of
        Inl x \<Rightarrow> standardize_error file_path x s
      | Inr parsed_json \<Rightarrow>
          (let now = clock e (ticks s);
               s1 = s\<lparr>ticks := Suc (ticks s)\<rparr>
           in case stamp e file_path raw now parsed_json of
                Inl x \<Rightarrow> standardize_error file_path x s1
              | Inr stamped \<Rightarrow>
                  (let output_path = standardized_path file_path;
                       s2 = write_file e output_path (JsonFile stamped) s1
                   in case write_error e output_path (JsonFile stamped) of
                        Some x \<Rightarrow> standardize_error file_path x s2
                      | None \<Rightarrow>
                          s2\<lparr>standardized_files := standardized_files s2 @ [output_path],
                             count := Suc (count s2)\<rparr>)))"

text \<open>
  Lines 143-177, the \<^verbatim>\<open>try\<close> block of one file. The result says whether control reaches
  the progress update of line 180: \<open>False\<close> is the \<^verbatim>\<open>continue\<close> of line 152. The raw
  response is written to its log (lines 158-160) before it is sanitized.
\<close>

definition standardize_try :: "env \<Rightarrow> path \<Rightarrow> state \<Rightarrow> bool \<times> state" where
  "standardize_try e file_path s =
     (case prepare e (fs s) file_path of
        Raised x \<Rightarrow> (True, standardize_error file_path x s)
      | Blank \<Rightarrow>
          (False, show_ui (empty_content_warning file_path) s)
      | Ready raw prompt \<Rightarrow>
          (let s1 = s\<lparr>llm_log := llm_log s @ [(file_path, prompt)]\<rparr>
           in case call_azure_llm e (length (llm_log s)) prompt of
                Inl x \<Rightarrow> (True, standardize_error file_path x s1)
              | Inr raw_response \<Rightarrow>
                  (let s2 = write_file e (raw_log_path file_path) (Plain raw_response) s1
                   in case write_error e (raw_log_path file_path) (Plain raw_response) of
                        Some x \<Rightarrow> (True, standardize_error file_path x s2)
                      | None \<Rightarrow> (True, standardize_finish e file_path raw raw_response s2))))"

text \<open>
  Lines 131-180, one turn of the loop: an artifact that exists is reused (lines 137-141).
  Every name in \<^verbatim>\<open>processed_files\<close> was opened for writing by the parse stage in the sibling
  directory, so \<^verbatim>\<open>exists\<close> answers for it.
\<close>

definition standardize_item :: "env \<Rightarrow> nat \<Rightarrow> nat \<Rightarrow> path \<Rightarrow> state \<Rightarrow> state" where
  "standardize_item e total_files i file_path s =
     (let s1 = show_ui (status_line ''Standardizing'' total_files i (snd file_path)) s;
          output_path = standardized_path file_path
      in if fs s1 output_path \<noteq> None then
           show_ui (Progress (i + 1) total_files)
             (s1\<lparr>standardized_files := standardized_files s1 @ [output_path], count := Suc (count s1)\<rparr>)
         else
           (case standardize_try e file_path s1 of
              (True, s2) \<Rightarrow> show_ui (Progress (i + 1) total_files) s2
            | (False, s2) \<Rightarrow> s2))"

text \<open>
  Lines 107-183. The first component of the result is the exception that leaves the
  function, if one does: \<^verbatim>\<open>except ValueError\<close> (line 121) handles a \<^verbatim>\<open>ValueError\<close> of the
  constructor and nothing else.
\<close>

definition standardize_start :: "state \<Rightarrow> state" where
  "standardize_start s =
     (let s1 = s\<lparr>standardizing_complete := False, standardized_files := []\<rparr>;
          s2 = show_ui (Write (''Standardizing '' @ str_nat (length (processed_files s1)) @ '' files...'')) s1
      in show_ui Placeholder (show_ui (Progress 0 1) s2))"

definition standardize_resumes :: "env \<Rightarrow> state \<Rightarrow> exn option \<times> state" where
  "standardize_resumes e s =
     (let s1 = standardize_start s
      in case standardizer_init e of
           Some x \<Rightarrow>
             if is_ValueError x then
               (None, show_ui (Error (''Error initializing standardizer: '' @ msg x)) s1)
             else (Some x, s1)
         | None \<Rightarrow>
             (let total_files = length (processed_files s1);
                  files_to_standardize = processed_files s1;
                  s2 = for_enumerate (standardize_item e total_files) 0 files_to_standardize (s1\<lparr>count := 0\<rparr>);
                  s3 = show_ui (summary_line ''Standardized'' (count s2) total_files ''files'') s2
              in (None, s3\<lparr>standardizing_complete := True\<rparr>)))"

section \<open>Stage 3: \<^verbatim>\<open>upload_to_mongodb\<close>\<close>

definition upload_error :: "path \<Rightarrow> exn \<Rightarrow> state \<Rightarrow> state" where
  "upload_error file_path x s =
     show_ui (error_line ''uploading'' (snd file_path) x) s"

text \<open>Lines 202-217, one turn of the loop.\<close>

definition upload_item :: "env \<Rightarrow> nat \<Rightarrow> nat \<Rightarrow> path \<Rightarrow> state \<Rightarrow> state" where
  "upload_item e total_files i file_path s =
     (let s1 = show_ui (status_line ''Uploading'' total_files i (snd file_path)) s;
          s2 = (case load_json e (fs s1) file_path of
                  Inl x \<Rightarrow> upload_error file_path x s1
                | Inr resume_data \<Rightarrow>
                    (let s' = s1\<lparr>db_log := db_log s1 @ [resume_data]\<rparr>
                     in case insert_or_update_resume e (length (db_log s1)) resume_data of
                          Some x \<Rightarrow> upload_error file_path x s'
                        | None \<Rightarrow>
                            s'\<lparr>count := Suc (count s'),
                               uploaded_files := uploaded_files s' @ [snd file_path]\<rparr>))
      in show_ui (Progress (i + 1) total_files) s2)"

text \<open>Lines 185-220. \<^verbatim>\<open>except Exception\<close> (line 195) handles every failure of the constructor.\<close>

definition upload_start :: "state \<Rightarrow> state" where
  "upload_start s = show_ui Placeholder (show_ui (Progress 0 1) (s\<lparr>db_upload_complete := False\<rparr>))"

definition upload_to_mongodb :: "env \<Rightarrow> state \<Rightarrow> state" where
  "upload_to_mongodb e s =
     (let s1 = upload_start s
      in case db_init e of
           Some x \<Rightarrow> show_ui (Error (''Error connecting to MongoDB: '' @ msg x)) s1
         | None \<Rightarrow>
             (let total_files = length (standardized_files s1);
                  s2 = for_enumerate (upload_item e total_files) 0 (standardized_files s1) (s1\<lparr>count := 0\<rparr>);
                  s3 = show_ui (summary_line ''Uploaded'' (count s2) total_files ''resumes to MongoDB'') s2
              in s3\<lparr>db_upload_complete := True\<rparr>))"

section \<open>Notions used by the properties\<close>

text \<open>The names the parse stage gives its artifacts end in \<^verbatim>\<open>.json\<close> (line 91).\<close>

definition json_name :: "string \<Rightarrow> bool" where
  "json_name nm \<longleftrightarrow> suffix ''.json'' nm"

definition staged_refs :: "path list \<Rightarrow> bool" where
  "staged_refs ps \<longleftrightarrow> list_all (\<lambda>q. fst q = ParsedDir \<and> json_name (snd q)) ps"

text \<open>The loop of \<^verbatim>\<open>standardize_resumes\<close> (lines 125-180), run from the state \<open>s\<close> the stage is entered in.\<close>

definition standardize_loop :: "env \<Rightarrow> state \<Rightarrow> state" where
  "standardize_loop e s =
     for_enumerate (standardize_item e (length (processed_files s))) 0 (processed_files s)
       ((standardize_start s)\<lparr>count := 0\<rparr>)"

text \<open>What a stage has put on the page since it was entered in state \<open>s\<close>.\<close>

definition shown_since :: "state \<Rightarrow> state \<Rightarrow> ui_event list" where
  "shown_since s s' = drop (length (ui s)) (ui s')"

text \<open>A failure report is an \<^verbatim>\<open>st.warning\<close> or an \<^verbatim>\<open>st.error\<close>; it names a file when its text contains the file's name.\<close>

fun is_failure :: "ui_event \<Rightarrow> bool" where
  "is_failure (Warning m) = True"
| "is_failure (Error m) = True"
| "is_failure ev = False"

definition failures :: "ui_event list \<Rightarrow> nat" where
  "failures evs = length (filter is_failure evs)"

fun reports :: "string \<Rightarrow> ui_event \<Rightarrow> bool" where
  "reports nm (Warning m) = sublist nm m"
| "reports nm (Error m) = sublist nm m"
| "reports nm ev = False"

text \<open>
  The invariant of the standardize loop for a record \<open>p\<close> with blank content: the record
  stays as it is, no call is made for it, and if nothing was staged for it, nothing gets
  staged or listed.
\<close>

definition blank_inv :: "path \<Rightarrow> state \<Rightarrow> state \<Rightarrow> bool" where
  "blank_inv p s s' \<longleftrightarrow>
     fs s' p = fs s p \<and>
     filter (\<lambda>c. fst c = p) (llm_log s') = filter (\<lambda>c. fst c = p) (llm_log s) \<and>
     (fs s (standardized_path p) = None \<longrightarrow>
        fs s' (standardized_path p) = None \<and> standardized_path p \<notin> set (standardized_files s'))"

text \<open>
  A parsed record of the batch: a file the parse stage wrote completely for an upload of the
  batch, holding that upload's name as \<^verbatim>\<open>original_filename\<close>.
\<close>

definition parsed_record_of :: "uploaded_file list \<Rightarrow> path \<Rightarrow> json \<Rightarrow> bool" where
  "parsed_record_of batch p j \<longleftrightarrow>
     list_ex (\<lambda>f. p = parsed_path (name f) \<and>
        (case j of
           JObj kvs \<Rightarrow> map_of kvs ''original_filename'' = Some (JStr (name f))
         | _ \<Rightarrow> False)) batch"


section \<open>Concrete collaborators and states\<close>

text \<open>
  \<^verbatim>\<open>str.lower\<close> and \<^verbatim>\<open>str.strip\<close> for the scenarios below. Strings are UTF-8 bytes. The case
  mapping is the one of the ASCII letters, which is \<^verbatim>\<open>str.lower\<close> on ASCII text. White space is
  what \<^verbatim>\<open>str.isspace\<close> accepts: U+0009 to U+000D, U+001C to U+0020, U+0085, U+00A0, U+1680,
  U+2000 to U+200A, U+2028, U+2029, U+202F, U+205F and U+3000, in their encodings of one, two
  and three bytes.
\<close>

definition lower_char :: "char \<Rightarrow> char" where
  "lower_char c =
     (if 65 \<le> (of_char c :: nat) \<and> (of_char c :: nat) \<le> 90 then char_of ((of_char c :: nat) + 32) else c)"

definition ascii_lower :: "string \<Rightarrow> string" where
  "ascii_lower s = map lower_char s"

definition space1 :: "char \<Rightarrow> bool" where
  "space1 a = (let n = (of_char a :: nat) in (9 \<le> n \<and> n \<le> 13) \<or> (28 \<le> n \<and> n \<le> 32))"

definition space2 :: "char \<Rightarrow> char \<Rightarrow> bool" where
  "space2 a b = (a = CHR 0xC2 \<and> (b = CHR 0x85 \<or> b = CHR 0xA0))"

definition space3 :: "char \<Rightarrow> char \<Rightarrow> char \<Rightarrow> bool" where
  "space3 a b c =
     ((a = CHR 0xE1 \<and> b = CHR 0x9A \<and> c = CHR 0x80) \<or>
      (a = CHR 0xE2 \<and> b = CHR 0x80 \<and>
         ((0x80 \<le> (of_char c :: nat) \<and> (of_char c :: nat) \<le> 0x8A) \<or> c = CHR 0xA8 \<or> c = CHR 0xA9 \<or> c = CHR 0xAF)) \<or>
      (a = CHR 0xE2 \<and> b = CHR 0x81 \<and> c = CHR 0x9F) \<or>
      (a = CHR 0xE3 \<and> b = CHR 0x80 \<and> c = CHR 0x80))"

fun lstrip :: "string \<Rightarrow> string" where
  "lstrip (a # b # c # s) =
     (if space1 a then lstrip (b # c # s)
      else if space2 a b then lstrip (c # s)
      else if space3 a b c then lstrip s
      else a # b # c # s)"
| "lstrip [a, b] = (if space1 a then lstrip [b] else if space2 a b then [] else [a, b])"
| "lstrip [a] = (if space1 a then [] else [a])"
| "lstrip [] = []"

text \<open>The same from the right, on the reversed string: the last byte comes first.\<close>

fun rstrip_rev :: "string \<Rightarrow> string" where
  "rstrip_rev (c # b # a # s) =
     (if space1 c then rstrip_rev (b # a # s)
      else if space2 b c then rstrip_rev (a # s)
      else if space3 a b c then rstrip_rev s
      else c # b # a # s)"
| "rstrip_rev [c, b] = (if space1 c then rstrip_rev [b] else if space2 b c then [] else [c, b])"
| "rstrip_rev [c] = (if space1 c then [] else [c])"
| "rstrip_rev [] = []"

definition utf8_strip :: "string \<Rightarrow> string" where
  "utf8_strip s = rev (rstrip_rev (rev (lstrip s)))"

text \<open>
  Collaborators that never fail to start and an operating system that writes every file.
  \<^verbatim>\<open>json.loads\<close> is given on the texts the scenarios meet: \<^verbatim>\<open>{}\<close>, \<^verbatim>\<open>{\<close>, and texts that start
  no JSON value. The parser raises on the bytes \<^verbatim>\<open>corrupt\<close>; the LLM answers the prompt
  \<^verbatim>\<open>broken\<close> with an unbalanced brace.
\<close>

definition demo_env :: env where
  "demo_env =
     \<lparr>tmp_root = ''/tmp'',
      clock = (\<lambda>n. ''T'' @ str_nat n),
      json_loads = (\<lambda>s. if s = ''{}'' then Inr (JObj [])
                         else if s = ''{'' then Inl ''Expecting property name enclosed in double quotes: line 1 column 2 (char 1)''
                         else Inl ''Expecting value: line 1 column 1 (char 0)''),
      str_lower = ascii_lower,
      str_strip = utf8_strip,
      write_fault = (\<lambda>p d. Written),
      parser_init = (\<lambda>i. None),
      SUPPORTED_EXTENSIONS = [''.pdf'', ''.docx''],
      parse_resume = (\<lambda>p b. if b = ''corrupt'' then Inl (Exn RuntimeError ''cannot read'')
                             else Inr (JObj [(''content'', JStr b), (''links'', JArr [])])),
      standardizer_init = None,
      make_standardizer_prompt = (\<lambda>c l. case c of JStr s \<Rightarrow> Inr s | _ \<Rightarrow> Inr []),
      call_azure_llm = (\<lambda>n p. if p = ''broken'' then Inr ''{'' else Inr ''{}''),
      clean_llm_response = (\<lambda>r. Inr r),
      db_init = None,
      insert_or_update_resume = (\<lambda>n d. None)\<rparr>"

definition demo_state :: state where
  "demo_state =
     \<lparr>processing_complete = False, standardizing_complete = False, db_upload_complete = False,
      processed_files = [], standardized_files = [], uploaded_files = [],
      fs = Map.empty, ui = [], ticks = 0, count = 0, parse_log = [], llm_log = [], db_log = []\<rparr>"

text \<open>One parsed record whose standardized artifact is already staged.\<close>

definition reuse_state :: state where
  "reuse_state =
     demo_state
       \<lparr>processing_complete := True,
        processed_files := [(ParsedDir, ''C.json'')],
        fs := [(ParsedDir, ''C.json'') \<mapsto> JsonFile (JObj [(''content'', JStr ''good''), (''links'', JArr [])]),
               (StandardizedDir, ''C.json'') \<mapsto> JsonFile (JObj [(''name'', JStr ''Ada'')])]\<rparr>"

text \<open>A parsed record with blank content whose standardized artifact is staged from an earlier run.\<close>

definition stale_state :: state where
  "stale_state =
     demo_state
       \<lparr>processing_complete := True,
        processed_files := [(ParsedDir, ''C.json'')],
        fs := [(ParsedDir, ''C.json'') \<mapsto> JsonFile (JObj [(''content'', JStr ''  ''), (''links'', JArr [])]),
               (StandardizedDir, ''C.json'') \<mapsto> JsonFile (JObj [(''name'', JStr ''Ada'')])]\<rparr>"

text \<open>
  A parsed record whose content is a no-break space and an em space (U+00A0, U+2003),
  nothing staged for it.
\<close>

definition blank_state :: state where
  "blank_state =
     demo_state
       \<lparr>processing_complete := True,
        processed_files := [(ParsedDir, ''C.json'')],
        fs := [(ParsedDir, ''C.json'') \<mapsto>
                 JsonFile (JObj [(''content'', JStr [CHR 0xC2, CHR 0xA0, CHR 0xE2, CHR 0x80, CHR 0x83]),
                   (''links'', JArr [])])]\<rparr>"

text \<open>The state the parse stage leaves for the one upload \<^verbatim>\<open>C.pdf\<close>, nothing standardized yet.\<close>

definition parsed_state :: state where
  "parsed_state =
     demo_state
       \<lparr>processing_complete := True,
        processed_files := [(ParsedDir, ''C.json'')],
        ticks := 1,
        fs := [(ParsedDir, ''C.json'') \<mapsto>
                 JsonFile (JObj [(''content'', JStr ''good''), (''links'', JArr []),
                   (''timestamp'', JStr ''T0''), (''original_filename'', JStr ''C.pdf'')])]\<rparr>"

text \<open>The same with the content the LLM answers badly.\<close>

definition broken_state :: state where
  "broken_state =
     demo_state
       \<lparr>processing_complete := True,
        processed_files := [(ParsedDir, ''B.json'')],
        ticks := 1,
        fs := [(ParsedDir, ''B.json'') \<mapsto>
                 JsonFile (JObj [(''content'', JStr ''broken''), (''links'', JArr []),
                   (''timestamp'', JStr ''T0''), (''original_filename'', JStr ''B.pdf'')])]\<rparr>"




text \<open>
  A file system whose names hold at most 255 bytes, as on Linux: \<^verbatim>\<open>open\<close> raises
  \<^verbatim>\<open>OSError\<close> (\<^verbatim>\<open>ENAMETOOLONG\<close>) on a longer one.
\<close>

definition name_limit_env :: env where
  "name_limit_env =
     demo_env
       \<lparr>write_fault := (\<lambda>p d.
          if 255 < length (snd p) then
            OpenFails (Exn OSError (''[Errno 36] File name too long: '' @ [CHR 0x27] @ str_path demo_env p @ [CHR 0x27]))
          else Written)\<rparr>"

text \<open>
  The record the parse stage leaves for an upload whose name is 250 letters and \<^verbatim>\<open>.pdf\<close>: the
  temporary copy, the parsed record and the standardized artifact have names of at most 255
  bytes, the raw log's name has 257.
\<close>

definition long_stem :: string where
  "long_stem = replicate 250 CHR ''a''"

definition long_state :: state where
  "long_state =
     demo_state
       \<lparr>processing_complete := True,
        processed_files := [(ParsedDir, long_stem @ ''.json'')],
        ticks := 1,
        fs := [(ParsedDir, long_stem @ ''.json'') \<mapsto>
                 JsonFile (JObj [(''content'', JStr ''broken''), (''links'', JArr []),
                   (''timestamp'', JStr ''T0''), (''original_filename'', JStr (long_stem @ ''.pdf''))])]\<rparr>"

text \<open>
  An LLM whose answer is valid JSON with the escape of a lone surrogate, U+D800.
  \<^verbatim>\<open>json.loads\<close> accepts it; the string it yields has no UTF-8 encoding (it is written here as
  the three bytes ED A0 80), so \<^verbatim>\<open>json.dump\<close> with \<^verbatim>\<open>ensure_ascii=False\<close> to a UTF-8 file raises
  \<^verbatim>\<open>UnicodeEncodeError\<close> when it reaches that value. The object's first key is then already
  in the file.
\<close>

definition lone_surrogate :: string where
  "lone_surrogate = [CHR 0xED, CHR 0xA0, CHR 0x80]"

definition surrogate_answer :: string where
  "surrogate_answer =
     ''{'' @ [CHR 0x22] @ ''name'' @ [CHR 0x22] @ '': '' @ [CHR 0x22, CHR 0x5C] @ ''ud800'' @ [CHR 0x22] @ ''}''"

definition surrogate_env :: env where
  "surrogate_env =
     demo_env
       \<lparr>json_loads := (\<lambda>s. if s = surrogate_answer then Inr (JObj [(''name'', JStr lone_surrogate)])
                           else json_loads demo_env s),
        call_azure_llm := (\<lambda>n p. Inr surrogate_answer),
        write_fault := (\<lambda>p d.
          case d of
            JsonFile (JObj ((k, JStr v) # kvs)) \<Rightarrow>
              if v = lone_surrogate then
                WriteFails
                  (Exn UnicodeEncodeError
                     ([CHR 0x27] @ ''utf-8'' @ [CHR 0x27] @ '' codec can'' @ [CHR 0x27] @ ''t encode character '' @
                      [CHR 0x27, CHR 0x5C] @ ''ud800'' @ [CHR 0x27] @ '' in position 1: surrogates not allowed''))
                  (''{'' @ [CHR 0x0A] @ ''  '' @ [CHR 0x22] @ k @ [CHR 0x22] @ '': '')
              else Written
          | _ \<Rightarrow> Written)\<rparr>"





section \<open>Properties of the loops\<close>

subsection \<open>Loops\<close>

lemma show_ui_fields [simp]:
  "ui (show_ui ev s) = ui s @ [ev]"
  "fs (show_ui ev s) = fs s"
  "processed_files (show_ui ev s) = processed_files s"
  "standardized_files (show_ui ev s) = standardized_files s"
  "uploaded_files (show_ui ev s) = uploaded_files s"
  "llm_log (show_ui ev s) = llm_log s"
  "parse_log (show_ui ev s) = parse_log s"
  "db_log (show_ui ev s) = db_log s"
  "ticks (show_ui ev s) = ticks s"
  "count (show_ui ev s) = count s"
  "processing_complete (show_ui ev s) = processing_complete s"
  "standardizing_complete (show_ui ev s) = standardizing_complete s"
  "db_upload_complete (show_ui ev s) = db_upload_complete s"
  by (simp_all add: show_ui_def)

lemma for_enumerate_invariant:
  assumes "P s" and "\<And>i x s. x \<in> set xs \<Longrightarrow> P s \<Longrightarrow> P (body i x s)"
  shows "P (for_enumerate body i xs s)"
  using assms
proof (induction xs arbitrary: i s)
  case Nil
  then show ?case by simp
next
  case (Cons x xs)
  have "P (body i x s)" using Cons.prems by simp
  then show ?case using Cons.IH Cons.prems(2) by simp
qed

lemma for_enumerate_reaches:
  assumes "p \<in> set xs" and "P s"
    and step: "\<And>i x s. x \<in> set xs \<Longrightarrow> P s \<Longrightarrow> P (body i x s)"
    and hit: "\<And>i s. P s \<Longrightarrow> Q (body i p s)"
    and keep: "\<And>i x s. x \<in> set xs \<Longrightarrow> P s \<Longrightarrow> Q s \<Longrightarrow> Q (body i x s)"
  shows "Q (for_enumerate body i xs s)"
  using assms
proof (induction xs arbitrary: i s)
  case Nil
  then show ?case by simp
next
  case (Cons x xs)
  have P': "P (body i x s)" using Cons.prems(2,3) by simp
  show ?case
  proof (cases "x = p")
    case True
    then have "Q (body i x s)" using Cons.prems(2,4) by simp
    with P' have "P (body i x s) \<and> Q (body i x s)" by simp
    then have "P (for_enumerate body (Suc i) xs (body i x s)) \<and> Q (for_enumerate body (Suc i) xs (body i x s))"
      by (rule for_enumerate_invariant) (use Cons.prems(3,5) in auto)
    then show ?thesis by simp
  next
    case False
    then have "p \<in> set xs" using Cons.prems(1) by simp
    then have "Q (for_enumerate body (Suc i) xs (body i x s))"
      using P' Cons.prems(3,4,5) by (intro Cons.IH) auto
    then show ?thesis by simp
  qed
qed

lemma shown_since_self [simp]: "shown_since s s = []"
  by (simp add: shown_since_def)

lemma ui_shown_since: "prefix (ui s) (ui s') \<Longrightarrow> ui s' = ui s @ shown_since s s'"
  by (auto simp: shown_since_def prefix_def)

lemma shown_since_append:
  assumes "prefix (ui s) (ui s')" and "prefix (ui s') (ui s'')"
  shows "shown_since s s'' = shown_since s s' @ shown_since s' s''"
  using assms by (auto simp: shown_since_def prefix_def)

lemma shown_since_ui [simp]: "shown_since s (s'\<lparr>ui := ui s @ evs\<rparr>) = evs"
  by (simp add: shown_since_def)

lemma for_enumerate_prefix:
  assumes ext: "\<And>i x s. prefix (ui s) (ui (body i x s))"
  shows "prefix (ui s) (ui (for_enumerate body i xs s))"
proof (induction xs arbitrary: i s)
  case Nil
  then show ?case by simp
next
  case (Cons x xs)
  have "prefix (ui s) (ui (body i x s))" by (rule ext)
  moreover have "prefix (ui (body i x s)) (ui (for_enumerate body (Suc i) xs (body i x s)))"
    by (rule Cons.IH)
  ultimately show ?case using prefix_order.trans by fastforce
qed

text \<open>What one turn shows is still shown when the loop ends.\<close>

lemma for_enumerate_shows:
  assumes "p \<in> set xs" and "P s"
    and step: "\<And>i x s. x \<in> set xs \<Longrightarrow> P s \<Longrightarrow> P (body i x s)"
    and ext: "\<And>i x s. prefix (ui s) (ui (body i x s))"
    and hit: "\<And>i s. P s \<Longrightarrow> ev \<in> set (shown_since s (body i p s))"
  shows "ev \<in> set (shown_since s (for_enumerate body i xs s))"
  using assms(1,2,3)
proof (induction xs arbitrary: i s)
  case Nil
  then show ?case by simp
next
  case (Cons x xs)
  let ?s1 = "body i x s"
  let ?s2 = "for_enumerate body (Suc i) xs ?s1"
  have split: "shown_since s ?s2 = shown_since s ?s1 @ shown_since ?s1 ?s2"
    by (rule shown_since_append) (simp_all add: ext for_enumerate_prefix)
  have P1: "P ?s1" using Cons.prems(2,3) by simp
  show ?case
  proof (cases "x = p")
    case True
    then have "ev \<in> set (shown_since s ?s1)" using hit Cons.prems(2) by simp
    then show ?thesis using split by simp
  next
    case False
    then have "p \<in> set xs" using Cons.prems(1) by simp
    then have "ev \<in> set (shown_since ?s1 ?s2)"
      using P1 Cons.prems(3) by (intro Cons.IH) auto
    then show ?thesis using split by simp
  qed
qed



lemma failures_append [simp]: "failures (xs @ ys) = failures xs + failures ys"
  by (simp add: failures_def)

lemma failures_simps [simp]:
  "failures [] = 0"
  "failures (Warning m # evs) = Suc (failures evs)"
  "failures (Error m # evs) = Suc (failures evs)"
  "failures (Write m # evs) = failures evs"
  "failures (Status m # evs) = failures evs"
  "failures (Placeholder # evs) = failures evs"
  "failures (Progress a b # evs) = failures evs"
  "failures (error_line doing nm x # evs) = Suc (failures evs)"
  by (simp_all add: failures_def error_line_def)



lemma for_enumerate_counts:
  assumes "\<And>i x s. m (body i x s) = Suc (m s)"
  shows "m (for_enumerate body i xs s) = m s + length xs"
  by (induction xs arbitrary: i s) (simp_all add: assms)

lemma for_enumerate_appends:
  assumes "\<And>i x s. g (body i x s) = g s @ h x"
  shows "g (for_enumerate body i xs s) = g s @ concat (map h xs)"
  by (induction xs arbitrary: i s) (simp_all add: assms)

lemma concat_map_if: "concat (map (\<lambda>x. if P x then [f x] else []) xs) = map f (filter P xs)"
  by (induction xs) simp_all

subsection \<open>Writes\<close>

lemma written_other [simp]: "x \<noteq> p \<Longrightarrow> written e p d files x = files x"
  by (simp add: written_def split: fault.splits)

lemma written_mono: "files x \<noteq> None \<Longrightarrow> written e p d files x \<noteq> None"
  by (simp add: written_def split: fault.splits)

lemma written_ok [simp]: "write_error e p d = None \<Longrightarrow> written e p d files = files(p \<mapsto> d)"
  by (simp add: written_def write_error_def split: fault.splits if_splits)

lemma write_file_fields [simp]:
  "fs (write_file e p d s) = written e p d (fs s)"
  "ui (write_file e p d s) = ui s"
  "processed_files (write_file e p d s) = processed_files s"
  "standardized_files (write_file e p d s) = standardized_files s"
  "uploaded_files (write_file e p d s) = uploaded_files s"
  "llm_log (write_file e p d s) = llm_log s"
  "parse_log (write_file e p d s) = parse_log s"
  "db_log (write_file e p d s) = db_log s"
  "ticks (write_file e p d s) = ticks s"
  "count (write_file e p d s) = count s"
  "processing_complete (write_file e p d s) = processing_complete s"
  "standardizing_complete (write_file e p d s) = standardizing_complete s"
  "db_upload_complete (write_file e p d s) = db_upload_complete s"
  by (simp_all add: write_file_def)

subsection \<open>Loops that an exception can leave\<close>

lemma for_enumerate_try_Cons:
  "for_enumerate_try body i (x # xs) s =
     (case fst (body i x s) of
        Some raised \<Rightarrow> (Some raised, snd (body i x s))
      | None \<Rightarrow> for_enumerate_try body (Suc i) xs (snd (body i x s)))"
  by (simp split: prod.splits option.splits)

lemma for_enumerate_try_invariant:
  assumes "P s" and "\<And>i x s. x \<in> set xs \<Longrightarrow> P s \<Longrightarrow> P (snd (body i x s))"
  shows "P (snd (for_enumerate_try body i xs s))"
  using assms
proof (induction xs arbitrary: i s)
  case Nil
  then show ?case by simp
next
  case (Cons x xs)
  have P1: "P (snd (body i x s))" using Cons.prems by simp
  show ?case
  proof (cases "fst (body i x s)")
    case None
    have "P (snd (for_enumerate_try body (Suc i) xs (snd (body i x s))))"
      using P1 Cons.prems(2) by (intro Cons.IH) auto
    then show ?thesis using None by (simp only: for_enumerate_try_Cons option.case)
  next
    case (Some raised)
    then show ?thesis using P1 by (simp only: for_enumerate_try_Cons option.case snd_conv)
  qed
qed

text \<open>When no exception leaves the loop, it is the plain loop over the turns' states.\<close>

lemma for_enumerate_try_None:
  assumes "fst (for_enumerate_try body i xs s) = None"
  shows "snd (for_enumerate_try body i xs s) = for_enumerate (\<lambda>i x s. snd (body i x s)) i xs s"
  using assms
proof (induction xs arbitrary: i s)
  case Nil
  then show ?case by simp
next
  case (Cons x xs)
  show ?case
  proof (cases "fst (body i x s)")
    case None
    then have eq: "for_enumerate_try body i (x # xs) s = for_enumerate_try body (Suc i) xs (snd (body i x s))"
      by (simp only: for_enumerate_try_Cons option.case)
    then have "fst (for_enumerate_try body (Suc i) xs (snd (body i x s))) = None" using Cons.prems by simp
    then have "snd (for_enumerate_try body (Suc i) xs (snd (body i x s))) =
        for_enumerate (\<lambda>i x s. snd (body i x s)) (Suc i) xs (snd (body i x s))"
      by (rule Cons.IH)
    then show ?thesis using eq by simp
  next
    case (Some raised)
    then have "fst (for_enumerate_try body i (x # xs) s) = Some raised"
      by (simp only: for_enumerate_try_Cons option.case fst_conv)
    then show ?thesis using Cons.prems by simp
  qed
qed

text \<open>An exception that leaves the loop left one of its turns.\<close>

lemma for_enumerate_try_Some:
  assumes "fst (for_enumerate_try body i xs s) = Some raised"
  shows "\<exists>k s'. k < length xs \<and> fst (body (i + k) (xs ! k) s') = Some raised"
  using assms
proof (induction xs arbitrary: i s)
  case Nil
  then show ?case by simp
next
  case (Cons x xs)
  show ?case
  proof (cases "fst (body i x s)")
    case None
    then have "for_enumerate_try body i (x # xs) s = for_enumerate_try body (Suc i) xs (snd (body i x s))"
      by (simp only: for_enumerate_try_Cons option.case)
    then have "fst (for_enumerate_try body (Suc i) xs (snd (body i x s))) = Some raised"
      using Cons.prems by simp
    then obtain k s' where "k < length xs" "fst (body (Suc i + k) (xs ! k) s') = Some raised"
      using Cons.IH by blast
    then have "Suc k < length (x # xs) \<and> fst (body (i + Suc k) ((x # xs) ! Suc k) s') = Some raised"
      by simp
    then show ?thesis by blast
  next
    case (Some r)
    then have "fst (for_enumerate_try body i (x # xs) s) = Some r"
      by (simp only: for_enumerate_try_Cons option.case fst_conv)
    then have "r = raised" using Cons.prems by simp
    then have "0 < length (x # xs) \<and> fst (body (i + 0) ((x # xs) ! 0) s) = Some raised"
      using Some by simp
    then show ?thesis by blast
  qed
qed

lemma for_enumerate_try_prefix:
  assumes ext: "\<And>i x s. prefix (ui s) (ui (snd (body i x s)))"
  shows "prefix (ui s) (ui (snd (for_enumerate_try body i xs s)))"
  by (rule for_enumerate_try_invariant [where P = "\<lambda>s'. prefix (ui s) (ui s')"])
     (use ext prefix_order.trans in blast)+



subsection \<open>Stage 2, one item\<close>

lemma standardize_error_fields [simp]:
  "ui (standardize_error p x s) = ui s @ [error_line ''standardizing'' (snd p) x]"
  "fs (standardize_error p x s) = fs s"
  "processed_files (standardize_error p x s) = processed_files s"
  "standardized_files (standardize_error p x s) = standardized_files s"
  "uploaded_files (standardize_error p x s) = uploaded_files s"
  "llm_log (standardize_error p x s) = llm_log s"
  "parse_log (standardize_error p x s) = parse_log s"
  "db_log (standardize_error p x s) = db_log s"
  "ticks (standardize_error p x s) = ticks s"
  "count (standardize_error p x s) = count s"
  by (simp_all add: standardize_error_def)

text \<open>The nine ways one turn of the standardize loop can go, each with the state it leaves.\<close>

lemma standardize_item_outcomes:
  fixes s p e t i
  defines "s0 \<equiv> show_ui (status_line ''Standardizing'' t i (snd p)) s"
  obtains
    (cached) a where "fs s (standardized_path p) = Some a"
      "standardize_item e t i p s =
         show_ui (Progress (i + 1) t)
           (s0\<lparr>standardized_files := standardized_files s @ [standardized_path p],
               count := Suc (count s)\<rparr>)"
  | (raised) x where "fs s (standardized_path p) = None" "prepare e (fs s) p = Raised x"
      "standardize_item e t i p s = show_ui (Progress (i + 1) t) (standardize_error p x s0)"
  | (blank) "fs s (standardized_path p) = None" "prepare e (fs s) p = Blank"
      "standardize_item e t i p s = show_ui (empty_content_warning p) s0"
  | (refused) raw prompt x where "fs s (standardized_path p) = None"
      "prepare e (fs s) p = Ready raw prompt"
      "call_azure_llm e (length (llm_log s)) prompt = Inl x"
      "standardize_item e t i p s =
         show_ui (Progress (i + 1) t)
           (standardize_error p x (s0\<lparr>llm_log := llm_log s @ [(p, prompt)]\<rparr>))"
  | (unlogged) raw prompt r x where "fs s (standardized_path p) = None"
      "prepare e (fs s) p = Ready raw prompt"
      "call_azure_llm e (length (llm_log s)) prompt = Inr r"
      "write_error e (raw_log_path p) (Plain r) = Some x"
      "standardize_item e t i p s =
         show_ui (Progress (i + 1) t)
           (standardize_error p x
              (s0\<lparr>llm_log := llm_log s @ [(p, prompt)],
                  fs := written e (raw_log_path p) (Plain r) (fs s)\<rparr>))"
  | (undecodable) raw prompt r x where "fs s (standardized_path p) = None"
      "prepare e (fs s) p = Ready raw prompt"
      "call_azure_llm e (length (llm_log s)) prompt = Inr r"
      "write_error e (raw_log_path p) (Plain r) = None"
      "decode e r = Inl x"
      "standardize_item e t i p s =
         show_ui (Progress (i + 1) t)
           (standardize_error p x
              (s0\<lparr>llm_log := llm_log s @ [(p, prompt)],
                  fs := (fs s)(raw_log_path p \<mapsto> Plain r)\<rparr>))"
  | (unstampable) raw prompt r j x where "fs s (standardized_path p) = None"
      "prepare e (fs s) p = Ready raw prompt"
      "call_azure_llm e (length (llm_log s)) prompt = Inr r"
      "write_error e (raw_log_path p) (Plain r) = None"
      "decode e r = Inr j"
      "stamp e p raw (clock e (ticks s)) j = Inl x"
      "standardize_item e t i p s =
         show_ui (Progress (i + 1) t)
           (standardize_error p x
              (s0\<lparr>llm_log := llm_log s @ [(p, prompt)],
                  fs := (fs s)(raw_log_path p \<mapsto> Plain r),
                  ticks := Suc (ticks s)\<rparr>))"
  | (unsaved) raw prompt r j doc x where "fs s (standardized_path p) = None"
      "prepare e (fs s) p = Ready raw prompt"
      "call_azure_llm e (length (llm_log s)) prompt = Inr r"
      "write_error e (raw_log_path p) (Plain r) = None"
      "decode e r = Inr j"
      "stamp e p raw (clock e (ticks s)) j = Inr doc"
      "write_error e (standardized_path p) (JsonFile doc) = Some x"
      "standardize_item e t i p s =
         show_ui (Progress (i + 1) t)
           (standardize_error p x
              (s0\<lparr>llm_log := llm_log s @ [(p, prompt)],
                  ticks := Suc (ticks s),
                  fs := written e (standardized_path p) (JsonFile doc) ((fs s)(raw_log_path p \<mapsto> Plain r))\<rparr>))"
  | (stored) raw prompt r j doc where "fs s (standardized_path p) = None"
      "prepare e (fs s) p = Ready raw prompt"
      "call_azure_llm e (length (llm_log s)) prompt = Inr r"
      "write_error e (raw_log_path p) (Plain r) = None"
      "decode e r = Inr j"
      "stamp e p raw (clock e (ticks s)) j = Inr doc"
      "write_error e (standardized_path p) (JsonFile doc) = None"
      "standardize_item e t i p s =
         show_ui (Progress (i + 1) t)
           (s0\<lparr>llm_log := llm_log s @ [(p, prompt)],
               fs := (fs s)(raw_log_path p \<mapsto> Plain r, standardized_path p \<mapsto> JsonFile doc),
               ticks := Suc (ticks s),
               standardized_files := standardized_files s @ [standardized_path p],
               count := Suc (count s)\<rparr>)"
proof (cases "fs s (standardized_path p)")
  case (Some a)
  then show ?thesis using cached [of a] by (simp add: standardize_item_def Let_def s0_def)
next
  case None
  show ?thesis
  proof (cases "prepare e (fs s) p")
    case (Raised x)
    then show ?thesis using None raised [of x]
      by (simp add: standardize_item_def standardize_try_def Let_def s0_def)
  next
    case Blank
    then show ?thesis using None blank
      by (simp add: standardize_item_def standardize_try_def Let_def s0_def)
  next
    case (Ready raw prompt)
    show ?thesis
    proof (cases "call_azure_llm e (length (llm_log s)) prompt")
      case (Inl x)
      then show ?thesis using None Ready refused [of raw prompt x]
        by (simp add: standardize_item_def standardize_try_def Let_def s0_def)
    next
      case (Inr r)
      note answer = this
      show ?thesis
      proof (cases "write_error e (raw_log_path p) (Plain r)")
        case (Some x)
        then show ?thesis using None Ready answer unlogged [of raw prompt r x]
          by (simp add: standardize_item_def standardize_try_def write_file_def Let_def s0_def show_ui_def)
      next
        case logged: None
        show ?thesis
        proof (cases "decode e r")
          case (Inl x)
          then show ?thesis using None Ready answer logged undecodable [of raw prompt r x]
            by (simp add: standardize_item_def standardize_try_def standardize_finish_def write_file_def
                Let_def s0_def show_ui_def)
        next
          case (Inr j)
          note decoded = this
          show ?thesis
          proof (cases "stamp e p raw (clock e (ticks s)) j")
            case (Inl x)
            then show ?thesis using None Ready answer logged decoded unstampable [of raw prompt r j x]
              by (simp add: standardize_item_def standardize_try_def standardize_finish_def write_file_def
                  Let_def s0_def show_ui_def)
          next
            case (Inr doc)
            note stamped = this
            show ?thesis
            proof (cases "write_error e (standardized_path p) (JsonFile doc)")
              case (Some x)
              then show ?thesis
                using None Ready answer logged decoded stamped unsaved [of raw prompt r j doc x]
                by (simp add: standardize_item_def standardize_try_def standardize_finish_def write_file_def
                    Let_def s0_def show_ui_def)
            next
              case saved: None
              then show ?thesis
                using None Ready answer logged decoded stamped stored [of raw prompt r j doc]
                by (simp add: standardize_item_def standardize_try_def standardize_finish_def write_file_def
                    Let_def s0_def show_ui_def)
            qed
          qed
        qed
      qed
    qed
  qed
qed

lemma rfind_Some: "rfind c xs = Some i \<Longrightarrow> i < length xs \<and> xs ! i = c"
  by (induction xs arbitrary: i) (auto split: option.splits if_splits)

lemma path_stem_suffix: "path_stem nm @ path_suffix nm = nm"
  by (simp add: path_stem_def path_suffix_def split: option.splits)

lemma path_suffix_dot: "path_suffix nm = [] \<or> hd (path_suffix nm) = CHR ''.''"
  by (auto simp: path_suffix_def hd_drop_conv_nth dest!: rfind_Some split: option.splits)

lemma raw_log_path_neq_standardized_path [simp]: "raw_log_path p \<noteq> standardized_path p"
proof
  assume "raw_log_path p = standardized_path p"
  then have "path_stem (snd p) @ ''_raw.md'' = path_stem (snd p) @ path_suffix (snd p)"
    by (simp add: raw_log_path_def standardized_path_def path_stem_suffix)
  then have "path_suffix (snd p) = ''_raw.md''" by simp
  then show False using path_suffix_dot [of "snd p"] by simp
qed

lemma standardized_path_neq_raw_log_path [simp]: "standardized_path p \<noteq> raw_log_path p"
  using raw_log_path_neq_standardized_path [of p] by (metis)

lemma raw_log_path_neq_json:
  assumes "json_name (snd x)"
  shows "raw_log_path q \<noteq> x"
proof
  assume "raw_log_path q = x"
  then have "snd x = path_stem (snd q) @ ''_raw.md''" by (auto simp: raw_log_path_def)
  moreover obtain z where "snd x = z @ ''.json''" using assms by (auto simp: json_name_def suffix_def)
  ultimately have "last (z @ ''.json'') = last (path_stem (snd q) @ ''_raw.md'')" by simp
  then show False by simp
qed

lemma standardize_item_fs_frame:
  assumes "x \<noteq> standardized_path p" "x \<noteq> raw_log_path p"
  shows "fs (standardize_item e t i p s) x = fs s x"
  by (cases rule: standardize_item_outcomes [of s p e t i]) (use assms in simp_all)

lemma standardize_item_fs_mono:
  assumes "fs s x \<noteq> None"
  shows "fs (standardize_item e t i p s) x \<noteq> None"
  by (cases rule: standardize_item_outcomes [of s p e t i]) (use assms in \<open>simp_all add: written_mono\<close>)

lemma standardize_item_llm_log:
  "\<exists>l. llm_log (standardize_item e t i p s) = llm_log s @ l \<and> (\<forall>y \<in> set l. fst y = p)"
  by (cases rule: standardize_item_outcomes [of s p e t i]) simp_all

lemma standardize_item_standardized_files:
  "standardized_files (standardize_item e t i p s) = standardized_files s \<or>
   standardized_files (standardize_item e t i p s) = standardized_files s @ [standardized_path p]"
  by (cases rule: standardize_item_outcomes [of s p e t i]) simp_all

lemma standardize_item_other_fields [simp]:
  "processed_files (standardize_item e t i p s) = processed_files s"
  "uploaded_files (standardize_item e t i p s) = uploaded_files s"
  "parse_log (standardize_item e t i p s) = parse_log s"
  "db_log (standardize_item e t i p s) = db_log s"
  by (cases rule: standardize_item_outcomes [of s p e t i]; simp)+

lemma standardize_item_ui:
  "\<exists>evs. ui (standardize_item e t i p s) = ui s @ status_line ''Standardizing'' t i (snd p) # evs"
  by (cases rule: standardize_item_outcomes [of s p e t i]) simp_all

subsection \<open>Stage 2, the loop\<close>

lemma standardize_loop_other_fields [simp]:
  "processed_files (for_enumerate (standardize_item e t) i ps s) = processed_files s"
  "uploaded_files (for_enumerate (standardize_item e t) i ps s) = uploaded_files s"
  "parse_log (for_enumerate (standardize_item e t) i ps s) = parse_log s"
  "db_log (for_enumerate (standardize_item e t) i ps s) = db_log s"
  by (rule for_enumerate_invariant; simp)+

lemma filter_llm_log_step:
  assumes "q \<noteq> p"
  shows "filter (\<lambda>c. fst c = p) (llm_log (standardize_item e t i q s)) = filter (\<lambda>c. fst c = p) (llm_log s)"
proof -
  obtain l where "llm_log (standardize_item e t i q s) = llm_log s @ l" "\<forall>y \<in> set l. fst y = q"
    using standardize_item_llm_log by blast
  then show ?thesis using assms by (auto simp: filter_empty_conv)
qed

lemma standardize_item_reuse:
  assumes "fs s (standardized_path p) = Some a"
  shows "fs (standardize_item e t i p s) = fs s"
    and "llm_log (standardize_item e t i p s) = llm_log s"
    and "standardized_files (standardize_item e t i p s) = standardized_files s @ [standardized_path p]"
  by (cases rule: standardize_item_outcomes [of s p e t i]; use assms in simp)+

text \<open>While the loop runs, an artifact that was there stays as it was, and no call is made for it.\<close>

lemma standardize_loop_reuse:
  assumes "json_name (snd p)" and "fs s (standardized_path p) = Some a"
  shows "fs (for_enumerate (standardize_item e t) i ps s) (standardized_path p) = Some a \<and>
         filter (\<lambda>c. fst c = p) (llm_log (for_enumerate (standardize_item e t) i ps s)) =
           filter (\<lambda>c. fst c = p) (llm_log s)"
proof (rule for_enumerate_invariant)
  show "fs s (standardized_path p) = Some a \<and>
        filter (\<lambda>c. fst c = p) (llm_log s) = filter (\<lambda>c. fst c = p) (llm_log s)"
    using assms by simp
next
  fix j q and s' :: state
  assume inv: "fs s' (standardized_path p) = Some a \<and>
        filter (\<lambda>c. fst c = p) (llm_log s') = filter (\<lambda>c. fst c = p) (llm_log s)"
  show "fs (standardize_item e t j q s') (standardized_path p) = Some a \<and>
        filter (\<lambda>c. fst c = p) (llm_log (standardize_item e t j q s')) = filter (\<lambda>c. fst c = p) (llm_log s)"
  proof (cases "standardized_path q = standardized_path p")
    case True
    then have "fs s' (standardized_path q) = Some a" using inv by simp
    then have "fs (standardize_item e t j q s') = fs s'" "llm_log (standardize_item e t j q s') = llm_log s'"
      by (rule standardize_item_reuse)+
    then show ?thesis using inv by simp
  next
    case False
    have "standardized_path p \<noteq> raw_log_path q"
      using raw_log_path_neq_json [of "standardized_path p" q] assms(1)
      by (auto simp: standardized_path_def)
    then have "fs (standardize_item e t j q s') (standardized_path p) = fs s' (standardized_path p)"
      using False by (intro standardize_item_fs_frame) auto
    moreover have "q \<noteq> p" using False by auto
    ultimately show ?thesis using inv filter_llm_log_step by simp
  qed
qed

lemma standardize_loop_listed:
  assumes "p \<in> set ps" and "fs s (standardized_path p) \<noteq> None"
  shows "standardized_path p \<in> set (standardized_files (for_enumerate (standardize_item e t) i ps s))"
proof (rule for_enumerate_reaches [where p = p and P = "\<lambda>s. fs s (standardized_path p) \<noteq> None"])
  show "p \<in> set ps" by fact
  show "fs s (standardized_path p) \<noteq> None" by fact
next
  fix j q and s' :: state assume "fs s' (standardized_path p) \<noteq> None"
  then show "fs (standardize_item e t j q s') (standardized_path p) \<noteq> None"
    by (rule standardize_item_fs_mono)
next
  fix j and s' :: state assume "fs s' (standardized_path p) \<noteq> None"
  then show "standardized_path p \<in> set (standardized_files (standardize_item e t j p s'))"
    using standardize_item_reuse(3) by fastforce
next
  fix j q and s' :: state assume "standardized_path p \<in> set (standardized_files s')"
  then show "standardized_path p \<in> set (standardized_files (standardize_item e t j q s'))"
    using standardize_item_standardized_files [of e t j q s'] by auto
qed

lemma standardize_start_fields [simp]:
  "fs (standardize_start s) = fs s"
  "processed_files (standardize_start s) = processed_files s"
  "standardized_files (standardize_start s) = []"
  "uploaded_files (standardize_start s) = uploaded_files s"
  "llm_log (standardize_start s) = llm_log s"
  "parse_log (standardize_start s) = parse_log s"
  "db_log (standardize_start s) = db_log s"
  "ticks (standardize_start s) = ticks s"
  "ui (standardize_start s) =
     ui s @ [Write (''Standardizing '' @ str_nat (length (processed_files s)) @ '' files...''), Progress 0 1, Placeholder]"
  by (simp_all add: standardize_start_def Let_def)

lemma standardize_resumes_run:
  assumes "standardizer_init e = None"
  shows "standardize_resumes e s =
     (None,
      (show_ui (summary_line ''Standardized'' (count (standardize_loop e s)) (length (processed_files s)) ''files'')
         (standardize_loop e s))\<lparr>standardizing_complete := True\<rparr>)"
  using assms by (simp add: standardize_resumes_def standardize_loop_def Let_def)

lemma standardize_resumes_fields:
  assumes "standardizer_init e = None"
  shows "fs (snd (standardize_resumes e s)) = fs (standardize_loop e s)"
    and "llm_log (snd (standardize_resumes e s)) = llm_log (standardize_loop e s)"
    and "standardized_files (snd (standardize_resumes e s)) = standardized_files (standardize_loop e s)"
    and "fst (standardize_resumes e s) = None"
  by (simp_all add: standardize_resumes_run [OF assms])

subsection \<open>Reuse of a staged artifact\<close>

text \<open>
  Claim C1. If the standardized artifact of a parsed record is already staged, a run of the
  standardize stage over that record leaves the artifact as it was, puts it on the list of
  standardized files, and sends no prompt to the LLM for that record.
\<close>

theorem standardize_reuses_staged_artifact:
  assumes "standardizer_init e = None"
    and "p \<in> set (processed_files s)"
    and "json_name (snd p)"
    and "fs s (standardized_path p) = Some a"
  shows "fs (snd (standardize_resumes e s)) (standardized_path p) = Some a \<and>
         standardized_path p \<in> set (standardized_files (snd (standardize_resumes e s))) \<and>
         filter (\<lambda>c. fst c = p) (llm_log (snd (standardize_resumes e s))) =
           filter (\<lambda>c. fst c = p) (llm_log s)"
proof -
  let ?s0 = "(standardize_start s)\<lparr>count := 0\<rparr>"
  have start: "fs ?s0 (standardized_path p) = Some a" using assms(4) by simp
  have "fs (standardize_loop e s) (standardized_path p) = Some a \<and>
        filter (\<lambda>c. fst c = p) (llm_log (standardize_loop e s)) = filter (\<lambda>c. fst c = p) (llm_log ?s0)"
    unfolding standardize_loop_def by (rule standardize_loop_reuse [OF assms(3) start])
  moreover have "standardized_path p \<in> set (standardized_files (standardize_loop e s))"
    unfolding standardize_loop_def using assms(2) start by (intro standardize_loop_listed) simp_all
  ultimately show ?thesis by (simp add: standardize_resumes_fields [OF assms(1)])
qed

theorem standardize_reuses_staged_artifact_witness:
  "standardizer_init demo_env = None \<and>
   (ParsedDir, ''C.json'') \<in> set (processed_files reuse_state) \<and>
   json_name ''C.json'' \<and>
   fs reuse_state (StandardizedDir, ''C.json'') = Some (JsonFile (JObj [(''name'', JStr ''Ada'')])) \<and>
   fs (snd (standardize_resumes demo_env reuse_state)) (StandardizedDir, ''C.json'') =
     Some (JsonFile (JObj [(''name'', JStr ''Ada'')])) \<and>
   (StandardizedDir, ''C.json'') \<in> set (standardized_files (snd (standardize_resumes demo_env reuse_state))) \<and>
   filter (\<lambda>c. fst c = (ParsedDir, ''C.json'')) (llm_log (snd (standardize_resumes demo_env reuse_state))) = []"
  using standardize_reuses_staged_artifact [of demo_env "(ParsedDir, ''C.json'')" reuse_state
      "JsonFile (JObj [(''name'', JStr ''Ada'')])"]
  by (simp add: demo_env_def reuse_state_def demo_state_def json_name_def standardized_path_def suffix_to_prefix)

subsection \<open>Loops that an exception can leave, when none does\<close>

lemma for_enumerate_try_Cons_None:
  assumes "fst (for_enumerate_try body i (x # xs) s) = None"
  shows "fst (body i x s) = None"
    and "for_enumerate_try body i (x # xs) s = for_enumerate_try body (Suc i) xs (snd (body i x s))"
proof -
  show 1: "fst (body i x s) = None"
  proof (cases "fst (body i x s)")
    case (Some raised)
    then have "fst (for_enumerate_try body i (x # xs) s) = Some raised"
      by (simp only: for_enumerate_try_Cons option.case fst_conv)
    then show ?thesis using assms by simp
  qed
  then show "for_enumerate_try body i (x # xs) s = for_enumerate_try body (Suc i) xs (snd (body i x s))"
    by (simp only: for_enumerate_try_Cons option.case)
qed


lemma for_enumerate_try_settles:
  assumes "fst (for_enumerate_try body i xs s) = None" and "p \<in> set xs"
    and ext: "\<And>i x s. prefix (ui s) (ui (snd (body i x s)))"
    and hit: "\<And>i s. fst (body i p s) = None \<Longrightarrow>
                G (snd (body i p s)) \<or> (\<exists>ev \<in> set (shown_since s (snd (body i p s))). F ev)"
    and keep: "\<And>i x s. G s \<Longrightarrow> G (snd (body i x s))"
  shows "G (snd (for_enumerate_try body i xs s)) \<or>
         (\<exists>ev \<in> set (shown_since s (snd (for_enumerate_try body i xs s))). F ev)"
  using assms(1,2)
proof (induction xs arbitrary: i s)
  case Nil
  then show ?case by simp
next
  case (Cons x xs)
  let ?s1 = "snd (body i x s)"
  let ?s2 = "snd (for_enumerate_try body (Suc i) xs ?s1)"
  note step = for_enumerate_try_Cons_None [OF Cons.prems(1)]
  have rest: "fst (for_enumerate_try body (Suc i) xs ?s1) = None" using Cons.prems(1) step(2) by simp
  have split: "shown_since s ?s2 = shown_since s ?s1 @ shown_since ?s1 ?s2"
    by (rule shown_since_append) (simp_all add: ext for_enumerate_try_prefix)
  show ?case
  proof (cases "x = p")
    case True
    from hit [of i s] step(1) True
    have "G ?s1 \<or> (\<exists>ev \<in> set (shown_since s ?s1). F ev)" by simp
    then show ?thesis
    proof
      assume "G ?s1"
      then have "G ?s2" by (intro for_enumerate_try_invariant [where P = G]) (simp_all add: keep)
      then show ?thesis using step(2) by simp
    next
      assume "\<exists>ev \<in> set (shown_since s ?s1). F ev"
      then show ?thesis using split step(2) by auto
    qed
  next
    case False
    then have "p \<in> set xs" using Cons.prems(2) by simp
    with rest have "G ?s2 \<or> (\<exists>ev \<in> set (shown_since ?s1 ?s2). F ev)" by (rule Cons.IH)
    then show ?thesis using split step(2) by auto
  qed
qed


lemma for_enumerate_try_appends:
  assumes "fst (for_enumerate_try body i xs s) = None"
    and step: "\<And>i x s. fst (body i x s) = None \<Longrightarrow> g (snd (body i x s)) = g s @ h x"
  shows "g (snd (for_enumerate_try body i xs s)) = g s @ concat (map h xs)"
  using assms(1)
proof (induction xs arbitrary: i s)
  case Nil
  then show ?case by simp
next
  case (Cons x xs)
  let ?s1 = "snd (body i x s)"
  note one = for_enumerate_try_Cons_None [OF Cons.prems(1)]
  have rest: "fst (for_enumerate_try body (Suc i) xs ?s1) = None" using Cons.prems(1) one(2) by simp
  have "g (snd (for_enumerate_try body (Suc i) xs ?s1)) = g ?s1 @ concat (map h xs)"
    using rest by (rule Cons.IH)
  then show ?case using step [OF one(1)] one(2) by simp
qed

subsection \<open>What the page shows\<close>

lemma sublist_mid: "sublist nm (a @ nm @ b)"
  by (rule sublist_appendI)

lemma sublist_end: "sublist nm (a @ nm)"
  using sublist_appendI [of nm a "[]"] by simp

lemma reports_messages [simp]:
  "reports nm (unsupported_warning nm ext)"
  "reports nm (no_content_warning nm)"
  "reports (snd p) (empty_content_warning p)"
  "reports nm (error_line doing nm x)"
proof -
  show "reports nm (unsupported_warning nm ext)"
    unfolding unsupported_warning_def reports.simps by (rule sublist_mid)
  show "reports nm (no_content_warning nm)"
    unfolding no_content_warning_def reports.simps by (rule sublist_end)
  show "reports (snd p) (empty_content_warning p)"
    unfolding empty_content_warning_def reports.simps by (rule sublist_mid)
  have "sublist nm ((''Error '' @ doing @ '' '') @ nm @ ('': '' @ msg x))" by (rule sublist_mid)
  then show "reports nm (error_line doing nm x)"
    unfolding error_line_def reports.simps by (simp only: append_assoc)
qed

lemma is_failure_messages [simp]:
  "is_failure (unsupported_warning nm ext)"
  "is_failure (no_content_warning nm)"
  "is_failure (empty_content_warning p)"
  "is_failure (error_line doing nm x)"
  "\<not> is_failure (status_line verb t i nm)"
  "\<not> is_failure (summary_line verb n t what)"
  by (simp_all add: unsupported_warning_def no_content_warning_def empty_content_warning_def
      status_line_def summary_line_def error_line_def)

lemma failures_messages [simp]:
  "failures (unsupported_warning nm ext # evs) = Suc (failures evs)"
  "failures (no_content_warning nm # evs) = Suc (failures evs)"
  "failures (empty_content_warning p # evs) = Suc (failures evs)"
  "failures (status_line verb t i nm # evs) = failures evs"
  "failures (summary_line verb n t what # evs) = failures evs"
  by (simp_all add: failures_def)

lemma shown_since_ui_eq: "ui s' = ui s @ evs \<Longrightarrow> shown_since s s' = evs"
  by (simp add: shown_since_def)

subsection \<open>Stage 1, one item\<close>

lemma parse_error_fields [simp]:
  "ui (parse_error nm x s) = ui s @ [error_line ''parsing'' nm x]"
  "fs (parse_error nm x s) = fs s"
  "processed_files (parse_error nm x s) = processed_files s"
  "standardized_files (parse_error nm x s) = standardized_files s"
  "uploaded_files (parse_error nm x s) = uploaded_files s"
  "llm_log (parse_error nm x s) = llm_log s"
  "parse_log (parse_error nm x s) = parse_log s"
  "db_log (parse_error nm x s) = db_log s"
  "ticks (parse_error nm x s) = ticks s"
  "count (parse_error nm x s) = count s"
  by (simp_all add: parse_error_def)

lemma parse_stamp_Inr:
  "parse_stamp nm now v = Inr doc \<longleftrightarrow>
     (\<exists>kvs. v = JObj kvs \<and>
        doc = JObj (AList.update ''original_filename'' (JStr nm) (AList.update ''timestamp'' (JStr now) kvs)))"
  by (cases v) (auto simp: parse_stamp_def)

text \<open>The eight ways one turn of the parse loop can go, each with the state it leaves.\<close>

lemma parse_item_outcomes:
  fixes s f e t i
  defines "s0 \<equiv> (show_ui (status_line ''Processing'' t i (name f)) s)
                   \<lparr>fs := written e (temp_path (name f)) (Plain (buffer f)) (fs s)\<rparr>"
    and "tmp \<equiv> str_path e (temp_path (name f))"
  obtains
    (unwritable) x where "write_error e (temp_path (name f)) (Plain (buffer f)) = Some x"
      "parse_item e t i f s = (Some x, s0)"
  | (unconstructed) x where "write_error e (temp_path (name f)) (Plain (buffer f)) = None"
      "parser_init e i = Some x"
      "parse_item e t i f s = (Some x, s0)"
  | (unsupported) "write_error e (temp_path (name f)) (Plain (buffer f)) = None"
      "parser_init e i = None" "\<not> supported e (name f)"
      "parse_item e t i f s =
         (None, show_ui (unsupported_warning (name f) (str_lower e (path_suffix (name f)))) s0)"
  | (raised) x where "write_error e (temp_path (name f)) (Plain (buffer f)) = None"
      "parser_init e i = None" "supported e (name f)" "parse_resume e tmp (buffer f) = Inl x"
      "parse_item e t i f s =
         (None, show_ui (Progress (i + 1) t) (parse_error (name f) x (s0\<lparr>parse_log := parse_log s @ [tmp]\<rparr>)))"
  | (falsy) v where "write_error e (temp_path (name f)) (Plain (buffer f)) = None"
      "parser_init e i = None" "supported e (name f)" "parse_resume e tmp (buffer f) = Inr v" "\<not> truthy v"
      "parse_item e t i f s =
         (None, show_ui (Progress (i + 1) t)
           (show_ui (no_content_warning (name f)) (s0\<lparr>parse_log := parse_log s @ [tmp]\<rparr>)))"
  | (unstampable) v x where "write_error e (temp_path (name f)) (Plain (buffer f)) = None"
      "parser_init e i = None" "supported e (name f)" "parse_resume e tmp (buffer f) = Inr v" "truthy v"
      "parse_stamp (name f) (clock e (ticks s)) v = Inl x"
      "parse_item e t i f s =
         (None, show_ui (Progress (i + 1) t)
           (parse_error (name f) x (s0\<lparr>parse_log := parse_log s @ [tmp], ticks := Suc (ticks s)\<rparr>)))"
  | (unsaved) v doc x where "write_error e (temp_path (name f)) (Plain (buffer f)) = None"
      "parser_init e i = None" "supported e (name f)" "parse_resume e tmp (buffer f) = Inr v" "truthy v"
      "parse_stamp (name f) (clock e (ticks s)) v = Inr doc"
      "write_error e (parsed_path (name f)) (JsonFile doc) = Some x"
      "parse_item e t i f s =
         (None, show_ui (Progress (i + 1) t)
           (parse_error (name f) x
              (s0\<lparr>parse_log := parse_log s @ [tmp], ticks := Suc (ticks s),
                  fs := written e (parsed_path (name f)) (JsonFile doc)
                          ((fs s)(temp_path (name f) \<mapsto> Plain (buffer f)))\<rparr>)))"
  | (stored) v doc where "write_error e (temp_path (name f)) (Plain (buffer f)) = None"
      "parser_init e i = None" "supported e (name f)" "parse_resume e tmp (buffer f) = Inr v" "truthy v"
      "parse_stamp (name f) (clock e (ticks s)) v = Inr doc"
      "write_error e (parsed_path (name f)) (JsonFile doc) = None"
      "parse_item e t i f s =
         (None, show_ui (Progress (i + 1) t)
           (s0\<lparr>parse_log := parse_log s @ [tmp],
               ticks := Suc (ticks s),
               fs := (fs s)(temp_path (name f) \<mapsto> Plain (buffer f), parsed_path (name f) \<mapsto> JsonFile doc),
               processed_files := processed_files s @ [parsed_path (name f)],
               count := Suc (count s)\<rparr>))"
proof (cases "write_error e (temp_path (name f)) (Plain (buffer f))")
  case (Some x)
  then have "parse_item e t i f s = (Some x, s0)"
    by (simp add: parse_item_def write_file_def Let_def s0_def)
  with Some show ?thesis by (rule unwritable)
next
  case None
  note wr = this
  show ?thesis
  proof (cases "parser_init e i")
    case (Some x)
    then have "parse_item e t i f s = (Some x, s0)"
      using wr by (simp add: parse_item_def write_file_def Let_def s0_def)
    with wr Some show ?thesis by (rule unconstructed)
  next
    case None
    note ctor = this
    show ?thesis
    proof (cases "supported e (name f)")
      case False
      then have "parse_item e t i f s =
          (None, show_ui (unsupported_warning (name f) (str_lower e (path_suffix (name f)))) s0)"
        using wr ctor by (simp add: parse_item_def write_file_def supported_def Let_def s0_def)
      with wr ctor False show ?thesis by (rule unsupported)
    next
      case True
      note sup = this
      show ?thesis
      proof (cases "parse_resume e tmp (buffer f)")
        case (Inl x)
        then have "parse_item e t i f s =
            (None, show_ui (Progress (i + 1) t) (parse_error (name f) x (s0\<lparr>parse_log := parse_log s @ [tmp]\<rparr>)))"
          using wr ctor sup
          by (simp add: parse_item_def parse_try_def write_file_def supported_def Let_def s0_def tmp_def)
        with wr ctor sup Inl show ?thesis by (rule raised)
      next
        case (Inr v)
        note ret = this
        show ?thesis
        proof (cases "truthy v")
          case False
          then have "parse_item e t i f s =
              (None, show_ui (Progress (i + 1) t)
                (show_ui (no_content_warning (name f)) (s0\<lparr>parse_log := parse_log s @ [tmp]\<rparr>)))"
            using wr ctor sup ret
            by (simp add: parse_item_def parse_try_def write_file_def supported_def Let_def s0_def tmp_def)
          with wr ctor sup ret False show ?thesis by (rule falsy)
        next
          case True
          show ?thesis
          proof (cases "parse_stamp (name f) (clock e (ticks s)) v")
            case (Inl x)
            then have "parse_item e t i f s =
                (None, show_ui (Progress (i + 1) t)
                  (parse_error (name f) x (s0\<lparr>parse_log := parse_log s @ [tmp], ticks := Suc (ticks s)\<rparr>)))"
              using wr ctor sup ret True
              by (simp add: parse_item_def parse_try_def write_file_def supported_def Let_def s0_def tmp_def)
            with wr ctor sup ret True Inl show ?thesis by (rule unstampable)
          next
            case (Inr doc)
            note st = this
            show ?thesis
            proof (cases "write_error e (parsed_path (name f)) (JsonFile doc)")
              case (Some x)
              then have "parse_item e t i f s =
                  (None, show_ui (Progress (i + 1) t)
                    (parse_error (name f) x
                       (s0\<lparr>parse_log := parse_log s @ [tmp], ticks := Suc (ticks s),
                           fs := written e (parsed_path (name f)) (JsonFile doc)
                                   ((fs s)(temp_path (name f) \<mapsto> Plain (buffer f)))\<rparr>)))"
                using wr ctor sup ret True st
                by (simp add: parse_item_def parse_try_def write_file_def supported_def Let_def s0_def tmp_def)
              with wr ctor sup ret True st Some show ?thesis by (rule unsaved)
            next
              case None
              then have "parse_item e t i f s =
                  (None, show_ui (Progress (i + 1) t)
                    (s0\<lparr>parse_log := parse_log s @ [tmp],
                        ticks := Suc (ticks s),
                        fs := (fs s)(temp_path (name f) \<mapsto> Plain (buffer f), parsed_path (name f) \<mapsto> JsonFile doc),
                        processed_files := processed_files s @ [parsed_path (name f)],
                        count := Suc (count s)\<rparr>))"
                using wr ctor sup ret True st
                by (simp add: parse_item_def parse_try_def write_file_def supported_def Let_def s0_def tmp_def)
              with wr ctor sup ret True st None show ?thesis by (rule stored)
            qed
          qed
        qed
      qed
    qed
  qed
qed

lemma parse_item_ui:
  "\<exists>evs. ui (snd (parse_item e t i f s)) = ui s @ status_line ''Processing'' t i (name f) # evs"
  by (cases rule: parse_item_outcomes [of e f t i s]) simp_all

lemma parse_item_prefix: "prefix (ui s) (ui (snd (parse_item e t i f s)))"
  using parse_item_ui [of e t i f s] by (auto simp: prefix_def)


lemma parse_item_escapes:
  assumes "fst (parse_item e t i f s) = Some x"
  shows "write_error e (temp_path (name f)) (Plain (buffer f)) = Some x \<or> parser_init e i = Some x"
  by (cases rule: parse_item_outcomes [of e f t i s]) (use assms in simp_all)

lemma parse_item_returns:
  "fst (parse_item e t i f s) = None \<longleftrightarrow>
     write_error e (temp_path (name f)) (Plain (buffer f)) = None \<and> parser_init e i = None"
  by (cases rule: parse_item_outcomes [of e f t i s]) simp_all

lemma parse_item_unsupported:
  assumes "fst (parse_item e t i f s) = None" and "\<not> supported e (name f)"
  shows "unsupported_warning (name f) (str_lower e (path_suffix (name f)))
           \<in> set (shown_since s (snd (parse_item e t i f s)))"
  by (cases rule: parse_item_outcomes [of e f t i s]) (use assms in \<open>simp_all add: shown_since_def\<close>)





lemma parse_item_parse_log:
  assumes "fst (parse_item e t i f s) = None"
  shows "parse_log (snd (parse_item e t i f s)) =
     parse_log s @ (if supported e (name f) then [str_path e (temp_path (name f))] else [])"
  by (cases rule: parse_item_outcomes [of e f t i s]) (use assms in simp_all)

lemma parse_item_untouched [simp]:
  "standardized_files (snd (parse_item e t i f s)) = standardized_files s"
  "uploaded_files (snd (parse_item e t i f s)) = uploaded_files s"
  "llm_log (snd (parse_item e t i f s)) = llm_log s"
  "db_log (snd (parse_item e t i f s)) = db_log s"
  by (cases rule: parse_item_outcomes [of e f t i s]; simp)+

lemma parse_item_fs_mono:
  assumes "fs s x \<noteq> None"
  shows "fs (snd (parse_item e t i f s)) x \<noteq> None"
  by (cases rule: parse_item_outcomes [of e f t i s]) (use assms in \<open>simp_all add: written_mono\<close>)


subsection \<open>Stage 1, the loop\<close>

lemma parse_loop_prefix: "prefix (ui s) (ui (snd (for_enumerate_try (parse_item e t) i files s)))"
  by (rule for_enumerate_try_prefix) (rule parse_item_prefix)

lemma parse_loop_unsupported:
  assumes "fst (for_enumerate_try (parse_item e t) i files s) = None"
    and "f \<in> set files" and "\<not> supported e (name f)"
  shows "unsupported_warning (name f) (str_lower e (path_suffix (name f)))
           \<in> set (shown_since s (snd (for_enumerate_try (parse_item e t) i files s)))"
proof -
  have "False \<or> (\<exists>ev \<in> set (shown_since s (snd (for_enumerate_try (parse_item e t) i files s))).
          ev = unsupported_warning (name f) (str_lower e (path_suffix (name f))))"
    by (rule for_enumerate_try_settles [where G = "\<lambda>s. False", OF assms(1,2)])
       (simp_all add: parse_item_prefix parse_item_unsupported assms(3))
  then show ?thesis by simp
qed






lemma parse_loop_parse_log:
  assumes "fst (for_enumerate_try (parse_item e t) i files s) = None"
  shows "parse_log (snd (for_enumerate_try (parse_item e t) i files s)) =
     parse_log s @ map (\<lambda>f. str_path e (temp_path (name f))) (filter (\<lambda>f. supported e (name f)) files)"
  using for_enumerate_try_appends [where g = parse_log and body = "parse_item e t"
      and h = "\<lambda>f. if supported e (name f) then [str_path e (temp_path (name f))] else []",
      OF assms parse_item_parse_log]
  by (simp add: concat_map_if)

lemma parse_loop_returns:
  assumes "\<And>f. f \<in> set files \<Longrightarrow> write_error e (temp_path (name f)) (Plain (buffer f)) = None"
    and "\<And>k. parser_init e k = None"
  shows "fst (for_enumerate_try (parse_item e t) i files s) = None"
  using assms(1)
proof (induction files arbitrary: i s)
  case Nil
  then show ?case by simp
next
  case (Cons f files)
  have "fst (parse_item e t i f s) = None"
    using Cons.prems assms(2) by (simp add: parse_item_returns)
  moreover have "fst (for_enumerate_try (parse_item e t) (Suc i) files (snd (parse_item e t i f s))) = None"
    using Cons.prems by (intro Cons.IH) simp
  ultimately show ?case by (simp only: for_enumerate_try_Cons option.case)
qed

lemma parse_loop_untouched [simp]:
  "standardized_files (snd (for_enumerate_try (parse_item e t) i files s)) = standardized_files s"
  "uploaded_files (snd (for_enumerate_try (parse_item e t) i files s)) = uploaded_files s"
  "llm_log (snd (for_enumerate_try (parse_item e t) i files s)) = llm_log s"
  "db_log (snd (for_enumerate_try (parse_item e t) i files s)) = db_log s"
  by (rule for_enumerate_try_invariant; simp)+


subsection \<open>Stage 1, the function\<close>

lemma parse_start_fields [simp]:
  "fs (parse_start files s) = fs s"
  "processed_files (parse_start files s) = []"
  "standardized_files (parse_start files s) = standardized_files s"
  "uploaded_files (parse_start files s) = uploaded_files s"
  "llm_log (parse_start files s) = llm_log s"
  "parse_log (parse_start files s) = parse_log s"
  "db_log (parse_start files s) = db_log s"
  "ticks (parse_start files s) = ticks s"
  "ui (parse_start files s) =
     ui s @ [Write (''Processing '' @ str_nat (length files) @ '' files...''), Progress 0 1, Placeholder]"
  by (simp_all add: parse_start_def Let_def)

lemma parse_finish_fields [simp]:
  "fs (parse_finish t s) = fs s"
  "processed_files (parse_finish t s) = processed_files s"
  "standardized_files (parse_finish t s) = standardized_files s"
  "uploaded_files (parse_finish t s) = uploaded_files s"
  "llm_log (parse_finish t s) = llm_log s"
  "parse_log (parse_finish t s) = parse_log s"
  "db_log (parse_finish t s) = db_log s"
  "ticks (parse_finish t s) = ticks s"
  "ui (parse_finish t s) = ui s @ [summary_line ''Processed'' (count s) t ''files'']"
  "processing_complete (parse_finish t s)"
  by (simp_all add: parse_finish_def)

text \<open>The loop of \<^verbatim>\<open>process_uploaded_files\<close> decides what the function returns and leaves.\<close>

lemma process_uploaded_files_run:
  "fst (process_uploaded_files e files s) =
     fst (for_enumerate_try (parse_item e (length files)) 0 files (parse_start files s))"
  "snd (process_uploaded_files e files s) =
     (case fst (for_enumerate_try (parse_item e (length files)) 0 files (parse_start files s)) of
        Some x \<Rightarrow> snd (for_enumerate_try (parse_item e (length files)) 0 files (parse_start files s))
      | None \<Rightarrow> parse_finish (length files)
          (snd (for_enumerate_try (parse_item e (length files)) 0 files (parse_start files s))))"
  by (simp_all add: process_uploaded_files_def Let_def split: prod.splits option.splits)

lemma process_uploaded_files_returns:
  assumes "\<And>f. f \<in> set files \<Longrightarrow> write_error e (temp_path (name f)) (Plain (buffer f)) = None"
    and "\<And>k. parser_init e k = None"
  shows "fst (process_uploaded_files e files s) = None"
  using parse_loop_returns [of files e, OF assms] by (simp add: process_uploaded_files_run)

lemma process_uploaded_files_fields [simp]:
  "fs (snd (process_uploaded_files e files s)) =
     fs (snd (for_enumerate_try (parse_item e (length files)) 0 files (parse_start files s)))"
  "processed_files (snd (process_uploaded_files e files s)) =
     processed_files (snd (for_enumerate_try (parse_item e (length files)) 0 files (parse_start files s)))"
  "parse_log (snd (process_uploaded_files e files s)) =
     parse_log (snd (for_enumerate_try (parse_item e (length files)) 0 files (parse_start files s)))"
  "standardized_files (snd (process_uploaded_files e files s)) = standardized_files s"
  "uploaded_files (snd (process_uploaded_files e files s)) = uploaded_files s"
  "llm_log (snd (process_uploaded_files e files s)) = llm_log s"
  "db_log (snd (process_uploaded_files e files s)) = db_log s"
  by (simp_all add: process_uploaded_files_run split: option.splits)

lemma parse_start_prefix: "prefix (ui s) (ui (parse_start files s))"
  by (simp add: prefix_def)

lemma process_uploaded_files_shown:
  "shown_since s (snd (process_uploaded_files e files s)) =
     shown_since s (parse_start files s) @
     shown_since (parse_start files s)
       (snd (for_enumerate_try (parse_item e (length files)) 0 files (parse_start files s))) @
     (case fst (process_uploaded_files e files s) of
        Some x \<Rightarrow> []
      | None \<Rightarrow>
          [summary_line ''Processed''
             (count (snd (for_enumerate_try (parse_item e (length files)) 0 files (parse_start files s))))
             (length files) ''files''])"
proof -
  let ?s1 = "parse_start files s"
  let ?s2 = "snd (for_enumerate_try (parse_item e (length files)) 0 files ?s1)"
  let ?end = "case fst (process_uploaded_files e files s) of
        Some x \<Rightarrow> []
      | None \<Rightarrow> [summary_line ''Processed'' (count ?s2) (length files) ''files'']"
  have 1: "ui ?s1 = ui s @ shown_since s ?s1"
    by (rule ui_shown_since) (rule parse_start_prefix)
  have 2: "ui ?s2 = ui ?s1 @ shown_since ?s1 ?s2"
    by (rule ui_shown_since) (rule parse_loop_prefix)
  have "ui (snd (process_uploaded_files e files s)) = ui ?s2 @ ?end"
    by (simp add: process_uploaded_files_run split: option.splits)
  then have "ui (snd (process_uploaded_files e files s)) =
      ui s @ (shown_since s ?s1 @ shown_since ?s1 ?s2 @ ?end)"
    using 1 2 by (metis append.assoc)
  then show ?thesis by (rule shown_since_ui_eq)
qed

lemma shown_since_parse_start [simp]: "failures (shown_since s (parse_start files s)) = 0"
  by (simp add: shown_since_def)

text \<open>
  When the function returns, every file of the batch whose extension is outside the
  supported set has its warning on the page.
\<close>

lemma process_uploaded_files_unsupported:
  assumes "fst (process_uploaded_files e files s) = None"
    and "f \<in> set files" and "\<not> supported e (name f)"
  shows "unsupported_warning (name f) (str_lower e (path_suffix (name f)))
           \<in> set (shown_since s (snd (process_uploaded_files e files s)))"
proof -
  have "fst (for_enumerate_try (parse_item e (length files)) 0 files (parse_start files s)) = None"
    using assms(1) by (simp add: process_uploaded_files_run)
  then show ?thesis
    using parse_loop_unsupported [OF _ assms(2,3), of "length files" 0 "parse_start files s"]
    by (simp add: process_uploaded_files_shown)
qed

subsection \<open>Unsupported extensions\<close>

text \<open>
  Claim C2. The claim asks that every file whose extension is outside the supported set be
  reported as unsupported and left out of the processed files. The stage writes the
  temporary copy and constructs the parser before it looks at the extension, outside the
  \<^verbatim>\<open>try\<close>. For a batch whose first upload is named \<^verbatim>\<open>parsed\<close>, a name without extension that is
  the name of the staging directory, \<^verbatim>\<open>open\<close> raises \<^verbatim>\<open>IsADirectoryError\<close>: the exception leaves
  \<^verbatim>\<open>process_uploaded_files\<close>, the page shows the header and the status line and no warning,
  the second upload is never looked at, and the stage is not marked complete.
\<close>

theorem unsupported_upload_named_parsed_is_not_reported:
  "\<not> supported demo_env ''parsed'' \<and>
   fst (process_uploaded_files demo_env
          [\<lparr>name = ''parsed'', buffer = ''text''\<rparr>, \<lparr>name = ''C.pdf'', buffer = ''good''\<rparr>] demo_state) =
     Some (Exn IsADirectoryError
       (''[Errno 21] Is a directory: '' @ [CHR 0x27] @ ''/tmp/resume_processor/parsed'' @ [CHR 0x27])) \<and>
   shown_since demo_state (snd (process_uploaded_files demo_env
          [\<lparr>name = ''parsed'', buffer = ''text''\<rparr>, \<lparr>name = ''C.pdf'', buffer = ''good''\<rparr>] demo_state)) =
     [Write ''Processing 2 files...'', Progress 0 1, Placeholder, status_line ''Processing'' 2 0 ''parsed''] \<and>
   processed_files (snd (process_uploaded_files demo_env
          [\<lparr>name = ''parsed'', buffer = ''text''\<rparr>, \<lparr>name = ''C.pdf'', buffer = ''good''\<rparr>] demo_state)) = [] \<and>
   \<not> processing_complete (snd (process_uploaded_files demo_env
          [\<lparr>name = ''parsed'', buffer = ''text''\<rparr>, \<lparr>name = ''C.pdf'', buffer = ''good''\<rparr>] demo_state))"
  by (simp add: process_uploaded_files_def parse_item_def parse_start_def write_error_def write_file_def
      written_def is_directory_def temp_path_def supported_def path_suffix_def ascii_lower_def
      demo_env_def demo_state_def shown_since_def show_ui_def str_path_def str_dir_def Let_def)
     (simp add: digit_char_def numeral_2_eq_2)

subsection \<open>Stage 2: records with blank content\<close>

lemma prepare_cong: "files p = files' p \<Longrightarrow> prepare e files p = prepare e files' p"
  by (simp add: prepare_def load_json_def)

lemma prepare_blank:
  assumes "files p = Some (JsonFile (JObj raw))"
    and "get_default raw ''content'' (JStr []) = JStr c"
    and "str_strip e c = []"
  shows "prepare e files p = Blank"
  using assms by (simp add: prepare_def load_json_def Let_def)

lemma standardize_item_prefix: "prefix (ui s) (ui (standardize_item e t i p s))"
  using standardize_item_ui [of e t i p s] by (auto simp: prefix_def)

lemma standardize_loop_prefix: "prefix (ui s) (ui (for_enumerate (standardize_item e t) i ps s))"
  by (rule for_enumerate_prefix) (rule standardize_item_prefix)


lemma standardize_item_blank:
  assumes "prepare e (fs s) p = Blank"
  shows "fs (standardize_item e t i p s) = fs s"
    and "llm_log (standardize_item e t i p s) = llm_log s"
    and "fs s (standardized_path p) = None \<Longrightarrow>
           standardized_files (standardize_item e t i p s) = standardized_files s \<and>
           empty_content_warning p \<in> set (shown_since s (standardize_item e t i p s))"
  by (cases rule: standardize_item_outcomes [of s p e t i]; use assms in \<open>simp add: shown_since_def\<close>)+

lemma staged_refs_D: "staged_refs ps \<Longrightarrow> q \<in> set ps \<Longrightarrow> fst q = ParsedDir \<and> json_name (snd q)"
  by (auto simp: staged_refs_def list_all_iff)

lemma staged_neq:
  assumes "fst q = ParsedDir" "fst p = ParsedDir" "q \<noteq> p"
  shows "standardized_path q \<noteq> standardized_path p"
  using assms by (cases p; cases q) (auto simp: standardized_path_def)

lemma blank_inv_step:
  assumes refs: "staged_refs ps" and p: "p \<in> set ps" and q: "q \<in> set ps"
    and blank: "prepare e (fs s) p = Blank"
    and inv: "blank_inv p s s'"
  shows "blank_inv p s (standardize_item e t i q s')"
proof -
  have pd: "fst p = ParsedDir" "json_name (snd p)" using staged_refs_D [OF refs p] by auto
  have qd: "fst q = ParsedDir" using staged_refs_D [OF refs q] by auto
  have "p \<noteq> standardized_path q" "p \<noteq> raw_log_path q"
    using pd(1) by (auto simp: standardized_path_def raw_log_path_def)
  then have keep: "fs (standardize_item e t i q s') p = fs s' p"
    by (rule standardize_item_fs_frame)
  show ?thesis
  proof (cases "q = p")
    case True
    have b: "prepare e (fs s') p = Blank"
      using blank inv prepare_cong [of "fs s'" p "fs s" e] by (simp add: blank_inv_def)
    show ?thesis
      using inv standardize_item_blank [OF b, of t i] True
      by (auto simp: blank_inv_def)
  next
    case False
    have ne: "standardized_path q \<noteq> standardized_path p"
      using qd pd(1) False by (rule staged_neq)
    have "standardized_path p \<noteq> raw_log_path q"
      using raw_log_path_neq_json [of "standardized_path p" q] pd(2)
      by (auto simp: standardized_path_def)
    then have "fs (standardize_item e t i q s') (standardized_path p) = fs s' (standardized_path p)"
      using ne by (intro standardize_item_fs_frame) auto
    moreover have "filter (\<lambda>c. fst c = p) (llm_log (standardize_item e t i q s')) =
        filter (\<lambda>c. fst c = p) (llm_log s')"
      using False by (rule filter_llm_log_step)
    moreover have "standardized_path p \<notin> set (standardized_files s') \<Longrightarrow>
        standardized_path p \<notin> set (standardized_files (standardize_item e t i q s'))"
      using standardize_item_standardized_files [of e t i q s'] ne by auto
    ultimately show ?thesis using inv keep by (auto simp: blank_inv_def)
  qed
qed

lemma standardize_loop_blank:
  assumes refs: "staged_refs ps" and p: "p \<in> set ps"
    and blank: "prepare e (fs s) p = Blank"
    and start: "standardized_files s = []"
  shows "blank_inv p s (for_enumerate (standardize_item e t) i ps s)"
    and "fs s (standardized_path p) = None \<Longrightarrow>
           empty_content_warning p \<in> set (shown_since s (for_enumerate (standardize_item e t) i ps s))"
proof -
  have init: "blank_inv p s s" using start by (simp add: blank_inv_def)
  show "blank_inv p s (for_enumerate (standardize_item e t) i ps s)"
    by (rule for_enumerate_invariant [where P = "blank_inv p s"])
       (use init blank_inv_step [OF refs p _ blank] in auto)
  assume none: "fs s (standardized_path p) = None"
  show "empty_content_warning p \<in> set (shown_since s (for_enumerate (standardize_item e t) i ps s))"
  proof (rule for_enumerate_shows [where p = p and P = "blank_inv p s"])
    show "p \<in> set ps" by fact
    show "blank_inv p s s" by fact
  next
    fix j q and s' :: state
    assume "q \<in> set ps" "blank_inv p s s'"
    then show "blank_inv p s (standardize_item e t j q s')"
      using blank_inv_step [OF refs p _ blank] by blast
  next
    fix j q and s' :: state
    show "prefix (ui s') (ui (standardize_item e t j q s'))" by (rule standardize_item_prefix)
  next
    fix j and s' :: state
    assume inv: "blank_inv p s s'"
    have b: "prepare e (fs s') p = Blank"
      using blank inv prepare_cong [of "fs s'" p "fs s" e] by (simp add: blank_inv_def)
    have "fs s' (standardized_path p) = None" using inv none by (simp add: blank_inv_def)
    then show "empty_content_warning p \<in> set (shown_since s' (standardize_item e t j p s'))"
      using standardize_item_blank(3) [OF b] by blast
  qed
qed

lemma standardize_start_prefix: "prefix (ui s) (ui (standardize_start s))"
  by (simp add: prefix_def)

lemma standardize_resumes_shown:
  assumes "standardizer_init e = None"
  shows "shown_since s (snd (standardize_resumes e s)) =
     shown_since s (standardize_start s) @
     shown_since ((standardize_start s)\<lparr>count := 0\<rparr>) (standardize_loop e s) @
     [summary_line ''Standardized'' (count (standardize_loop e s)) (length (processed_files s)) ''files'']"
proof -
  let ?s1 = "(standardize_start s)\<lparr>count := 0\<rparr>"
  have 1: "ui ?s1 = ui s @ shown_since s (standardize_start s)"
    using ui_shown_since [OF standardize_start_prefix [of s]] by simp
  have 2: "ui (standardize_loop e s) = ui ?s1 @ shown_since ?s1 (standardize_loop e s)"
    unfolding standardize_loop_def by (rule ui_shown_since) (rule standardize_loop_prefix)
  have "ui (snd (standardize_resumes e s)) =
      ui (standardize_loop e s) @
        [summary_line ''Standardized'' (count (standardize_loop e s)) (length (processed_files s)) ''files'']"
    by (simp add: standardize_resumes_run [OF assms])
  then have "ui (snd (standardize_resumes e s)) =
      ui s @ (shown_since s (standardize_start s) @ shown_since ?s1 (standardize_loop e s) @
        [summary_line ''Standardized'' (count (standardize_loop e s)) (length (processed_files s)) ''files''])"
    using 1 2 by (metis append.assoc)
  then show ?thesis by (rule shown_since_ui_eq)
qed

subsection \<open>Blank content\<close>

text \<open>
  Claim C3, as the code has it. For a parsed record whose content is empty or white space
  only, that is, whose \<^verbatim>\<open>content.strip()\<close> is empty, the standardize stage sends no prompt
  to the LLM. If no standardized artifact is staged for the record, the stage shows the
  empty-content warning that names it, does not list it as standardized and stages nothing
  for it. (If an artifact is staged, line 137 reuses it before the content is looked at.)
\<close>

theorem blank_content_is_skipped_without_llm_call:
  assumes "standardizer_init e = None"
    and "staged_refs (processed_files s)"
    and "p \<in> set (processed_files s)"
    and "fs s p = Some (JsonFile (JObj raw))"
    and "get_default raw ''content'' (JStr []) = JStr c"
    and "str_strip e c = []"
  shows "filter (\<lambda>c. fst c = p) (llm_log (snd (standardize_resumes e s))) =
           filter (\<lambda>c. fst c = p) (llm_log s) \<and>
         (fs s (standardized_path p) = None \<longrightarrow>
            empty_content_warning p \<in> set (shown_since s (snd (standardize_resumes e s))) \<and>
            standardized_path p \<notin> set (standardized_files (snd (standardize_resumes e s))) \<and>
            fs (snd (standardize_resumes e s)) (standardized_path p) = None)"
proof -
  let ?s1 = "(standardize_start s)\<lparr>count := 0\<rparr>"
  have blank: "prepare e (fs ?s1) p = Blank"
    using prepare_blank [OF _ assms(5,6), of "fs s" p] assms(4) by simp
  have inv: "blank_inv p ?s1 (standardize_loop e s)"
    unfolding standardize_loop_def
    by (rule standardize_loop_blank(1) [OF assms(2,3) blank]) simp
  have warn: "fs s (standardized_path p) = None \<Longrightarrow>
      empty_content_warning p \<in> set (shown_since ?s1 (standardize_loop e s))"
    unfolding standardize_loop_def
    by (rule standardize_loop_blank(2) [OF assms(2,3) blank]) simp_all
  show ?thesis
    using inv warn
    by (auto simp: blank_inv_def standardize_resumes_fields [OF assms(1)]
        standardize_resumes_shown [OF assms(1)])
qed

theorem blank_content_is_skipped_without_llm_call_witness:
  "standardizer_init demo_env = None \<and>
   staged_refs (processed_files blank_state) \<and>
   (ParsedDir, ''C.json'') \<in> set (processed_files blank_state) \<and>
   fs blank_state (ParsedDir, ''C.json'') =
     Some (JsonFile (JObj [(''content'', JStr [CHR 0xC2, CHR 0xA0, CHR 0xE2, CHR 0x80, CHR 0x83]),
       (''links'', JArr [])])) \<and>
   str_strip demo_env [CHR 0xC2, CHR 0xA0, CHR 0xE2, CHR 0x80, CHR 0x83] = [] \<and>
   fs blank_state (StandardizedDir, ''C.json'') = None \<and>
   filter (\<lambda>c. fst c = (ParsedDir, ''C.json'')) (llm_log (snd (standardize_resumes demo_env blank_state))) = [] \<and>
   Warning ''Empty content in C.json, skipping.''
     \<in> set (shown_since blank_state (snd (standardize_resumes demo_env blank_state))) \<and>
   (StandardizedDir, ''C.json'') \<notin> set (standardized_files (snd (standardize_resumes demo_env blank_state))) \<and>
   fs (snd (standardize_resumes demo_env blank_state)) (StandardizedDir, ''C.json'') = None"
  using blank_content_is_skipped_without_llm_call [of demo_env blank_state "(ParsedDir, ''C.json'')"
      "[(''content'', JStr [CHR 0xC2, CHR 0xA0, CHR 0xE2, CHR 0x80, CHR 0x83]), (''links'', JArr [])]"
      "[CHR 0xC2, CHR 0xA0, CHR 0xE2, CHR 0x80, CHR 0x83]"]
  by (simp add: demo_env_def blank_state_def demo_state_def staged_refs_def json_name_def
      suffix_to_prefix get_default_def utf8_strip_def space1_def space2_def space3_def
      standardized_path_def empty_content_warning_def)

text \<open>
  Claim C3, as it is written, fails when an artifact is already staged: the record with blank
  content is listed as standardized and no empty-content warning is shown.
\<close>

theorem blank_content_with_staged_artifact_is_listed:
  "fs stale_state (ParsedDir, ''C.json'') =
     Some (JsonFile (JObj [(''content'', JStr ''  ''), (''links'', JArr [])])) \<and>
   standardized_files (snd (standardize_resumes demo_env stale_state)) = [(StandardizedDir, ''C.json'')] \<and>
   failures (shown_since stale_state (snd (standardize_resumes demo_env stale_state))) = 0"
  by (simp add: stale_state_def demo_state_def demo_env_def standardize_resumes_def standardize_start_def
      standardize_item_def standardized_path_def shown_since_def show_ui_def status_line_def
      summary_line_def Let_def failures_def)

subsection \<open>Re-running a batch\<close>

text \<open>
  Claim C6, as the code has it. The parse stage, when it returns, has handed every file with
  a supported extension to \<^verbatim>\<open>parse_resume\<close>, whatever is staged: only the standardize stage
  looks for the standardized artifact, and one turn of its loop over a record whose artifact
  is staged sends nothing to the LLM and leaves the files as they are.
\<close>

theorem rerun_skips_standardizing_only:
  "(fst (process_uploaded_files e files s) = None \<longrightarrow>
      parse_log (snd (process_uploaded_files e files s)) =
        parse_log s @ map (\<lambda>f. str_path e (temp_path (name f))) (filter (\<lambda>f. supported e (name f)) files)) \<and>
   (fs s (standardized_path p) \<noteq> None \<longrightarrow>
      llm_log (standardize_item e t i p s) = llm_log s \<and> fs (standardize_item e t i p s) = fs s)"
proof -
  have "parse_log (snd (process_uploaded_files e files s)) =
        parse_log s @ map (\<lambda>f. str_path e (temp_path (name f))) (filter (\<lambda>f. supported e (name f)) files)"
    if "fst (process_uploaded_files e files s) = None"
    using that parse_loop_parse_log [of e "length files" 0 files "parse_start files s"]
    by (simp add: process_uploaded_files_run)
  then show ?thesis using standardize_item_reuse(1,2) [of s p _ e t i] by auto
qed

theorem rerun_skips_standardizing_only_witness:
  "fst (process_uploaded_files demo_env [\<lparr>name = ''C.pdf'', buffer = ''good''\<rparr>] reuse_state) = None \<and>
   parse_log (snd (process_uploaded_files demo_env [\<lparr>name = ''C.pdf'', buffer = ''good''\<rparr>] reuse_state)) =
     [''/tmp/resume_processor/C.pdf''] \<and>
   fs reuse_state (StandardizedDir, ''C.json'') \<noteq> None \<and>
   llm_log (standardize_item demo_env 1 0 (ParsedDir, ''C.json'') reuse_state) = [] \<and>
   fs (standardize_item demo_env 1 0 (ParsedDir, ''C.json'') reuse_state) = fs reuse_state"
proof -
  have ret: "fst (process_uploaded_files demo_env [\<lparr>name = ''C.pdf'', buffer = ''good''\<rparr>] reuse_state) = None"
    by (rule process_uploaded_files_returns)
       (simp_all add: write_error_def is_directory_def temp_path_def demo_env_def)
  show ?thesis
    using rerun_skips_standardizing_only [of demo_env "[\<lparr>name = ''C.pdf'', buffer = ''good''\<rparr>]"
        reuse_state "(ParsedDir, ''C.json'')" 1 0] ret
    by (simp add: demo_env_def reuse_state_def demo_state_def supported_def path_suffix_def ascii_lower_def
        lower_char_def temp_path_def str_path_def str_dir_def standardized_path_def)
qed

text \<open>
  Claim C6, as it is written, fails: with the standardized artifact of \<^verbatim>\<open>C.pdf\<close> staged, the
  parse stage still hands the file to \<^verbatim>\<open>parse_resume\<close> and writes its parsed record anew.
\<close>

theorem parse_stage_extracts_standardized_item_again:
  "fs reuse_state (standardized_path (parsed_path ''C.pdf'')) =
     Some (JsonFile (JObj [(''name'', JStr ''Ada'')])) \<and>
   parse_log reuse_state = [] \<and>
   parse_log (snd (process_uploaded_files demo_env [\<lparr>name = ''C.pdf'', buffer = ''good''\<rparr>] reuse_state)) =
     [''/tmp/resume_processor/C.pdf''] \<and>
   fs (snd (process_uploaded_files demo_env [\<lparr>name = ''C.pdf'', buffer = ''good''\<rparr>] reuse_state))
      (ParsedDir, ''C.json'') =
     Some (JsonFile (JObj [(''content'', JStr ''good''), (''links'', JArr []),
        (''timestamp'', JStr ''T0''), (''original_filename'', JStr ''C.pdf'')]))"
  by (simp add: reuse_state_def demo_state_def demo_env_def process_uploaded_files_def parse_start_def
      parse_finish_def parse_item_def parse_try_def parse_stamp_def write_error_def write_file_def
      written_def is_directory_def supported_def path_suffix_def path_stem_def
      ascii_lower_def lower_char_def temp_path_def parsed_path_def standardized_path_def str_path_def
      str_dir_def show_ui_def digit_char_def Let_def)

subsection \<open>Malformed responses\<close>

lemma rfind_None: "c \<notin> set ys \<Longrightarrow> rfind c ys = None"
  by (induction ys) auto

lemma rfind_last: "c \<notin> set ys \<Longrightarrow> rfind c (xs @ c # ys) = Some (length xs)"
  by (induction xs) (simp_all add: rfind_None)

lemma path_stem_ext:
  assumes "z \<noteq> []" and "ext \<noteq> []" and "CHR ''.'' \<notin> set ext"
  shows "path_stem (z @ CHR ''.'' # ext) = z"
  using assms by (cases ext) (simp_all add: path_stem_def rfind_last)

lemma long_stem_names:
  "path_stem (long_stem @ ''.json'') = long_stem"
  "path_stem (long_stem @ ''.pdf'') = long_stem"
  "length long_stem = 250"
  using path_stem_ext [of long_stem "''json''"] path_stem_ext [of long_stem "''pdf''"]
  by (simp_all add: long_stem_def)

text \<open>
  Claim C7, as the code has it. When the LLM has answered for a record, the answer has been
  written to the sibling log file, and the answer, once sanitized, does not parse as JSON,
  the turn reports the error with the record's name and the parser's message, the raw answer
  is in the log file, nothing is staged as the record's standardized artifact and the record
  is not listed as standardized.
\<close>

theorem malformed_response_fails_and_keeps_raw_log:
  assumes "fs s (standardized_path p) = None"
    and "prepare e (fs s) p = Ready raw prompt"
    and "call_azure_llm e (length (llm_log s)) prompt = Inr r"
    and "write_error e (raw_log_path p) (Plain r) = None"
    and "clean_llm_response e r = Inr c"
    and "json_loads e c = Inl m"
  shows "fs (standardize_item e t i p s) (raw_log_path p) = Some (Plain r) \<and>
         fs (standardize_item e t i p s) (standardized_path p) = None \<and>
         standardized_files (standardize_item e t i p s) = standardized_files s \<and>
         shown_since s (standardize_item e t i p s) =
           [status_line ''Standardizing'' t i (snd p),
            error_line ''standardizing'' (snd p) (Exn JSONDecodeError m),
            Progress (i + 1) t]"
proof -
  have d: "decode e r = Inl (Exn JSONDecodeError m)" using assms(5,6) by (simp add: decode_def)
  show ?thesis
    by (cases rule: standardize_item_outcomes [of s p e t i])
       (use assms(1,2,3,4) d in \<open>simp_all add: shown_since_def\<close>)
qed

theorem malformed_response_fails_and_keeps_raw_log_witness:
  "fs broken_state (StandardizedDir, ''B.json'') = None \<and>
   call_azure_llm demo_env 0 ''broken'' = Inr ''{'' \<and>
   write_error demo_env (StandardizedDir, ''B_raw.md'') (Plain ''{'') = None \<and>
   json_loads demo_env ''{'' =
     Inl ''Expecting property name enclosed in double quotes: line 1 column 2 (char 1)'' \<and>
   fs (standardize_item demo_env 1 0 (ParsedDir, ''B.json'') broken_state) (StandardizedDir, ''B_raw.md'') =
     Some (Plain ''{'') \<and>
   fs (standardize_item demo_env 1 0 (ParsedDir, ''B.json'') broken_state) (StandardizedDir, ''B.json'') = None \<and>
   standardized_files (standardize_item demo_env 1 0 (ParsedDir, ''B.json'') broken_state) = [] \<and>
   shown_since broken_state (standardize_item demo_env 1 0 (ParsedDir, ''B.json'') broken_state) =
     [status_line ''Standardizing'' 1 0 ''B.json'',
      Error ''Error standardizing B.json: Expecting property name enclosed in double quotes: line 1 column 2 (char 1)'',
      Progress 1 1]"
  using malformed_response_fails_and_keeps_raw_log [of broken_state "(ParsedDir, ''B.json'')" demo_env
      "[(''content'', JStr ''broken''), (''links'', JArr []),
        (''timestamp'', JStr ''T0''), (''original_filename'', JStr ''B.pdf'')]"
      "''broken''" "''{''" "''{''"
      "''Expecting property name enclosed in double quotes: line 1 column 2 (char 1)''" 1 0]
  by (simp add: demo_env_def broken_state_def demo_state_def standardized_path_def raw_log_path_def
      path_stem_def prepare_def load_json_def get_default_def utf8_strip_def space1_def space2_def
      space3_def write_error_def is_directory_def error_line_def Let_def)

text \<open>
  Claim C7, as it is written, fails when the log file cannot be written. The upload named by
  250 letters and \<^verbatim>\<open>.pdf\<close> passes the parse stage, its parsed record is named by the same
  letters and \<^verbatim>\<open>.json\<close>. Its log file's name has 257 bytes: \<^verbatim>\<open>open\<close> raises on it inside the
  \<^verbatim>\<open>try\<close>. The LLM has been called and has answered with an unbalanced brace, which does not
  parse; the answer is kept nowhere, and the error that is reported is the one of \<^verbatim>\<open>open\<close>.
\<close>

theorem malformed_response_is_lost_when_log_cannot_be_written:
  "processed_files long_state = [parsed_path (long_stem @ ''.pdf'')] \<and>
   raw_log_path (parsed_path (long_stem @ ''.pdf'')) = (StandardizedDir, long_stem @ ''_raw.md'') \<and>
   decode name_limit_env ''{'' =
     Inl (Exn JSONDecodeError ''Expecting property name enclosed in double quotes: line 1 column 2 (char 1)'') \<and>
   llm_log (snd (standardize_resumes name_limit_env long_state)) =
     [(parsed_path (long_stem @ ''.pdf''), ''broken'')] \<and>
   call_azure_llm name_limit_env 0 ''broken'' = Inr ''{'' \<and>
   fs (snd (standardize_resumes name_limit_env long_state)) (StandardizedDir, long_stem @ ''_raw.md'') = None \<and>
   shown_since long_state (snd (standardize_resumes name_limit_env long_state)) =
     [Write ''Standardizing 1 files...'', Progress 0 1, Placeholder,
      status_line ''Standardizing'' 1 0 (long_stem @ ''.json''),
      error_line ''standardizing'' (long_stem @ ''.json'')
        (Exn OSError (''[Errno 36] File name too long: '' @ [CHR 0x27] @
           ''/tmp/resume_processor/standardized/'' @ long_stem @ ''_raw.md'' @ [CHR 0x27])),
      Progress 1 1,
      summary_line ''Standardized'' 0 1 ''files'']"
  by (simp add: long_state_def demo_state_def name_limit_env_def demo_env_def parsed_path_def
      raw_log_path_def long_stem_names standardize_resumes_def standardize_start_def
      standardize_item_def standardize_try_def standardized_path_def prepare_def load_json_def
      get_default_def utf8_strip_def space1_def space2_def space3_def decode_def
      write_error_def write_file_def written_def is_directory_def str_path_def str_dir_def
      shown_since_def show_ui_def standardize_error_def digit_char_def Let_def)

subsection \<open>What gets staged\<close>

lemma stamp_Inr:
  assumes "stamp e p raw now j = Inr stamped"
  shows "\<exists>kvs. stamped = JObj kvs \<and>
           map_of kvs ''timestamp'' = Some (JStr now) \<and>
           map_of kvs ''source_file'' = Some (JStr (str_path e p)) \<and>
           (case map_of raw ''original_filename'' of
              None \<Rightarrow> True
            | Some v \<Rightarrow> map_of kvs ''original_filename'' = Some v)"
  using assms
  by (cases j) (auto simp: stamp_def update_conv' split: option.splits)


lemma standardize_resumes_refused:
  assumes "standardizer_init e = Some x"
  shows "standardize_resumes e s =
     (if is_ValueError x
      then (None, show_ui (Error (''Error initializing standardizer: '' @ msg x)) (standardize_start s))
      else (Some x, standardize_start s))"
  using assms by (simp add: standardize_resumes_def Let_def)

text \<open>
  Claim C8. The claim asks that the standardized artifact exist only if the standardization
  of its item fully succeeded. \<^verbatim>\<open>open\<close> of line 171 creates the artifact before \<^verbatim>\<open>json.dump\<close>
  of line 172 writes it. When the LLM's answer holds the escape of a lone surrogate, the
  answer is logged, sanitized, parsed and stamped, the dump raises \<^verbatim>\<open>UnicodeEncodeError\<close> at
  that value, the \<^verbatim>\<open>try\<close> reports the error and the record is not listed: the artifact is
  there, holding the opening brace and the first key. A second run of the stage finds the
  artifact (line 137) and lists the record as standardized.
\<close>

theorem failed_dump_leaves_artifact_that_next_run_reuses:
  "fs parsed_state (StandardizedDir, ''C.json'') = None \<and>
   fs (snd (standardize_resumes surrogate_env parsed_state)) (StandardizedDir, ''C.json'') =
     Some (Plain (''{'' @ [CHR 0x0A] @ ''  '' @ [CHR 0x22] @ ''name'' @ [CHR 0x22] @ '': '')) \<and>
   fs (snd (standardize_resumes surrogate_env parsed_state)) (StandardizedDir, ''C_raw.md'') =
     Some (Plain surrogate_answer) \<and>
   standardized_files (snd (standardize_resumes surrogate_env parsed_state)) = [] \<and>
   shown_since parsed_state (snd (standardize_resumes surrogate_env parsed_state)) =
     [Write ''Standardizing 1 files...'', Progress 0 1, Placeholder,
      status_line ''Standardizing'' 1 0 ''C.json'',
      error_line ''standardizing'' ''C.json''
        (Exn UnicodeEncodeError
           ([CHR 0x27] @ ''utf-8'' @ [CHR 0x27] @ '' codec can'' @ [CHR 0x27] @ ''t encode character '' @
            [CHR 0x27, CHR 0x5C] @ ''ud800'' @ [CHR 0x27] @ '' in position 1: surrogates not allowed'')),
      Progress 1 1,
      summary_line ''Standardized'' 0 1 ''files''] \<and>
   standardized_files
     (snd (standardize_resumes surrogate_env (snd (standardize_resumes surrogate_env parsed_state)))) =
     [(StandardizedDir, ''C.json'')]"
  by (simp add: parsed_state_def demo_state_def surrogate_env_def demo_env_def surrogate_answer_def
      lone_surrogate_def standardize_resumes_def standardize_start_def standardize_item_def
      standardize_try_def standardize_finish_def standardize_error_def prepare_def decode_def
      stamp_def load_json_def get_default_def utf8_strip_def space1_def space2_def space3_def
      write_error_def write_file_def written_def is_directory_def standardized_path_def
      raw_log_path_def path_stem_def str_path_def str_dir_def shown_since_def show_ui_def
      digit_char_def Let_def)

subsection \<open>Stamps\<close>

lemma temp_path_neq_parsed_path [simp]: "temp_path nm \<noteq> parsed_path nm'" "parsed_path nm' \<noteq> temp_path nm"
  by (simp_all add: temp_path_def parsed_path_def)

lemma written_failed:
  assumes "write_error e p d = Some x"
  shows "written e p d files p = files p \<or> (\<exists>left. written e p d files p = Some (Plain left))"
  using assms by (auto simp: written_def write_error_def split: fault.splits if_splits)

text \<open>
  The invariant of the parse loop: a listed path lies in the parsed directory, and when it
  holds a JSON record, that is the record of an upload of the batch.
\<close>

lemma parsed_record_step:
  assumes g: "g \<in> set batch"
    and inv: "\<forall>p \<in> set (processed_files s). fst p = ParsedDir \<and>
                (\<forall>j. fs s p = Some (JsonFile j) \<longrightarrow> parsed_record_of batch p j)"
  shows "\<forall>p \<in> set (processed_files (snd (parse_item e t i g s))). fst p = ParsedDir \<and>
           (\<forall>j. fs (snd (parse_item e t i g s)) p = Some (JsonFile j) \<longrightarrow> parsed_record_of batch p j)"
proof -
  have tmp: "p \<noteq> temp_path (name g)" if "p \<in> set (processed_files s)" for p
    using inv that by (auto simp: temp_path_def)
  have keep: ?thesis
    if pf: "processed_files (snd (parse_item e t i g s)) = processed_files s"
      and fr: "\<And>p. p \<noteq> temp_path (name g) \<Longrightarrow> fs (snd (parse_item e t i g s)) p = fs s p"
  proof
    fix p assume "p \<in> set (processed_files (snd (parse_item e t i g s)))"
    then have p: "p \<in> set (processed_files s)" using pf by simp
    have "fs (snd (parse_item e t i g s)) p = fs s p" using fr tmp [OF p] by simp
    then show "fst p = ParsedDir \<and>
         (\<forall>j. fs (snd (parse_item e t i g s)) p = Some (JsonFile j) \<longrightarrow> parsed_record_of batch p j)"
      using inv p by simp
  qed
  show ?thesis
  proof (cases rule: parse_item_outcomes [of e g t i s])
    case (stored v doc)
    from stored(6) obtain kvs where
      doc: "doc = JObj (AList.update ''original_filename'' (JStr (name g))
                      (AList.update ''timestamp'' (JStr (clock e (ticks s))) kvs))"
      by (auto simp: parse_stamp_Inr)
    have new: "parsed_record_of batch (parsed_path (name g)) doc"
      unfolding parsed_record_of_def list_ex_iff using g doc
      by (intro bexI [of _ g]) (simp_all add: update_conv')
    show ?thesis
    proof
      fix p assume "p \<in> set (processed_files (snd (parse_item e t i g s)))"
      then consider "p = parsed_path (name g)" | "p \<in> set (processed_files s)" "p \<noteq> parsed_path (name g)"
        using stored(8) by auto
      then show "fst p = ParsedDir \<and>
           (\<forall>j. fs (snd (parse_item e t i g s)) p = Some (JsonFile j) \<longrightarrow> parsed_record_of batch p j)"
      proof cases
        case 1
        then show ?thesis using new stored(8) by (simp add: parsed_path_def)
      next
        case 2
        then show ?thesis using inv tmp [OF 2(1)] stored(8) by simp
      qed
    qed
  next
    case (unsaved v doc x)
    show ?thesis
    proof
      fix p assume "p \<in> set (processed_files (snd (parse_item e t i g s)))"
      then have p: "p \<in> set (processed_files s)" using unsaved(8) by simp
      show "fst p = ParsedDir \<and>
           (\<forall>j. fs (snd (parse_item e t i g s)) p = Some (JsonFile j) \<longrightarrow> parsed_record_of batch p j)"
      proof (cases "p = parsed_path (name g)")
        case True
        have "fs (snd (parse_item e t i g s)) p = fs s p \<or>
              (\<exists>left. fs (snd (parse_item e t i g s)) p = Some (Plain left))"
          using written_failed [OF unsaved(7), of "(fs s)(temp_path (name g) \<mapsto> Plain (buffer g))"]
            True unsaved(8) by simp
        then show ?thesis using inv p by auto
      next
        case False
        then show ?thesis using inv p tmp [OF p] unsaved(8) by simp
      qed
    qed
  qed (rule keep; simp)+
qed

lemma process_uploaded_files_records:
  assumes "p \<in> set (processed_files (snd (process_uploaded_files e files s)))"
    and "fs (snd (process_uploaded_files e files s)) p = Some (JsonFile j)"
  shows "parsed_record_of files p j"
proof -
  let ?loop = "snd (for_enumerate_try (parse_item e (length files)) 0 files (parse_start files s))"
  have "\<forall>p \<in> set (processed_files ?loop). fst p = ParsedDir \<and>
          (\<forall>j. fs ?loop p = Some (JsonFile j) \<longrightarrow> parsed_record_of files p j)"
    by (rule for_enumerate_try_invariant
          [where P = "\<lambda>s'. \<forall>p \<in> set (processed_files s'). fst p = ParsedDir \<and>
             (\<forall>j. fs s' p = Some (JsonFile j) \<longrightarrow> parsed_record_of files p j)"])
       (use parsed_record_step in simp_all)
  then show ?thesis using assms by simp
qed

lemma prepare_Ready:
  assumes "prepare e files p = Ready raw prompt" and "files p = Some (JsonFile j)"
  shows "j = JObj raw"
  using assms by (cases j) (auto simp: prepare_def load_json_def Let_def split: sum.splits if_splits)

text \<open>
  Claim C9. Take a parsed record that the parse stage has listed and that is in place as the
  stage left it: it holds the \<^verbatim>\<open>original_filename\<close> of an upload of the batch. When a turn of
  the standardize loop over that record succeeds, that is, stages an artifact that was not
  there and lists it, what is in the artifact carries the timestamp read in that turn, the
  path of the parsed record as \<^verbatim>\<open>source_file\<close>, and that same \<^verbatim>\<open>original_filename\<close>.
\<close>

theorem standardized_record_carries_stamps:
  assumes "p \<in> set (processed_files (snd (process_uploaded_files e files s0)))"
    and "fs (snd (process_uploaded_files e files s0)) p = Some (JsonFile j)"
    and "fs s p = Some (JsonFile j)"
    and "fs s (standardized_path p) = None"
    and "standardized_files (standardize_item e t i p s) = standardized_files s @ [standardized_path p]"
  shows "\<exists>f \<in> set files. \<exists>kvs.
           p = parsed_path (name f) \<and>
           fs (standardize_item e t i p s) (standardized_path p) = Some (JsonFile (JObj kvs)) \<and>
           map_of kvs ''timestamp'' = Some (JStr (clock e (ticks s))) \<and>
           map_of kvs ''source_file'' = Some (JStr (str_path e p)) \<and>
           map_of kvs ''original_filename'' = Some (JStr (name f))"
proof -
  from process_uploaded_files_records [OF assms(1,2)] obtain f where
    f0: "f \<in> set files" "p = parsed_path (name f)"
      "case j of JObj kvs \<Rightarrow> map_of kvs ''original_filename'' = Some (JStr (name f)) | _ \<Rightarrow> False"
    unfolding parsed_record_of_def list_ex_iff by blast
  from f0(3) obtain kvs0 where "j = JObj kvs0" "map_of kvs0 ''original_filename'' = Some (JStr (name f))"
    by (cases j) simp_all
  note f = f0(1,2) this
  show ?thesis
  proof (cases rule: standardize_item_outcomes [of s p e t i])
    case (stored raw prompt r j' doc)
    have "j = JObj raw" using prepare_Ready [OF stored(2) assms(3)] .
    then have orig: "map_of raw ''original_filename'' = Some (JStr (name f))" using f(3,4) by simp
    from stamp_Inr [OF stored(6)] obtain kvs where
      k: "doc = JObj kvs" "map_of kvs ''timestamp'' = Some (JStr (clock e (ticks s)))"
        "map_of kvs ''source_file'' = Some (JStr (str_path e p))"
        "map_of kvs ''original_filename'' = Some (JStr (name f))"
      using orig by auto
    have "fs (standardize_item e t i p s) (standardized_path p) = Some (JsonFile (JObj kvs))"
      using stored(8) k(1) by simp
    then show ?thesis using f(1,2) k by blast
  qed (use assms(4,5) in simp_all)
qed

lemma demo_parse_one:
  "process_uploaded_files demo_env [\<lparr>name = ''C.pdf'', buffer = ''good''\<rparr>] demo_state =
     (None,
      parsed_state
        \<lparr>fs := (fs parsed_state)((TempDir, ''C.pdf'') \<mapsto> Plain ''good''),
         ui := [Write ''Processing 1 files...'', Progress 0 1, Placeholder,
                status_line ''Processing'' 1 0 ''C.pdf'', Progress 1 1,
                summary_line ''Processed'' 1 1 ''files''],
         count := 1,
         parse_log := [''/tmp/resume_processor/C.pdf'']\<rparr>)"
  by (simp add: parsed_state_def demo_state_def demo_env_def
      process_uploaded_files_def parse_start_def parse_finish_def parse_item_def parse_try_def
      parse_stamp_def write_error_def write_file_def written_def is_directory_def
      supported_def path_suffix_def ascii_lower_def lower_char_def temp_path_def parsed_path_def
      path_stem_def str_path_def str_dir_def show_ui_def digit_char_def Let_def fun_upd_twist)

theorem standardized_record_carries_stamps_witness:
  "(ParsedDir, ''C.json'') \<in> set (processed_files (snd (process_uploaded_files demo_env [\<lparr>name = ''C.pdf'', buffer = ''good''\<rparr>] demo_state))) \<and>
   fs (snd (process_uploaded_files demo_env [\<lparr>name = ''C.pdf'', buffer = ''good''\<rparr>] demo_state)) (ParsedDir, ''C.json'') =
     fs parsed_state (ParsedDir, ''C.json'') \<and>
   fs parsed_state (StandardizedDir, ''C.json'') = None \<and>
   standardized_files (standardize_item demo_env 1 0 (ParsedDir, ''C.json'') parsed_state) =
     [(StandardizedDir, ''C.json'')] \<and>
   fs (standardize_item demo_env 1 0 (ParsedDir, ''C.json'') parsed_state) (StandardizedDir, ''C.json'') =
     Some (JsonFile (JObj [(''timestamp'', JStr ''T1''),
       (''source_file'', JStr ''/tmp/resume_processor/parsed/C.json''),
       (''original_filename'', JStr ''C.pdf'')]))"
proof -
  have item: "standardized_files (standardize_item demo_env 1 0 (ParsedDir, ''C.json'') parsed_state) =
       [(StandardizedDir, ''C.json'')] \<and>
     fs (standardize_item demo_env 1 0 (ParsedDir, ''C.json'') parsed_state) (StandardizedDir, ''C.json'') =
       Some (JsonFile (JObj [(''timestamp'', JStr ''T1''),
         (''source_file'', JStr ''/tmp/resume_processor/parsed/C.json''),
         (''original_filename'', JStr ''C.pdf'')]))"
    by (simp add: parsed_state_def demo_state_def demo_env_def standardize_item_def standardize_try_def
        standardize_finish_def prepare_def decode_def stamp_def load_json_def get_default_def
        utf8_strip_def space1_def space2_def space3_def write_error_def write_file_def written_def
        is_directory_def standardized_path_def raw_log_path_def path_stem_def str_path_def
        str_dir_def show_ui_def digit_char_def Let_def)
  have rec: "fs parsed_state (ParsedDir, ''C.json'') =
      Some (JsonFile (JObj [(''content'', JStr ''good''), (''links'', JArr []),
                   (''timestamp'', JStr ''T0''), (''original_filename'', JStr ''C.pdf'')]))"
    "fs parsed_state (StandardizedDir, ''C.json'') = None"
    "processed_files parsed_state = [(ParsedDir, ''C.json'')]"
    "standardized_files parsed_state = []"
    "ticks parsed_state = 1"
    by (simp_all add: parsed_state_def demo_state_def)
  have env: "clock demo_env 1 = ''T1''"
    "str_path demo_env (ParsedDir, ''C.json'') = ''/tmp/resume_processor/parsed/C.json''"
    by (simp_all add: demo_env_def str_path_def str_dir_def digit_char_def)
  show ?thesis
    using standardized_record_carries_stamps [of "(ParsedDir, ''C.json'')" demo_env
        "[\<lparr>name = ''C.pdf'', buffer = ''good''\<rparr>]" demo_state
        "JObj [(''content'', JStr ''good''), (''links'', JArr []),
                   (''timestamp'', JStr ''T0''), (''original_filename'', JStr ''C.pdf'')]"
        parsed_state 1 0] item rec env
    by (simp add: demo_parse_one standardized_path_def parsed_path_def path_stem_def)
qed

subsection \<open>Stage 3\<close>

lemma upload_error_fields [simp]:
  "ui (upload_error p x s) = ui s @ [error_line ''uploading'' (snd p) x]"
  "fs (upload_error p x s) = fs s"
  "processed_files (upload_error p x s) = processed_files s"
  "standardized_files (upload_error p x s) = standardized_files s"
  "uploaded_files (upload_error p x s) = uploaded_files s"
  "llm_log (upload_error p x s) = llm_log s"
  "parse_log (upload_error p x s) = parse_log s"
  "db_log (upload_error p x s) = db_log s"
  "ticks (upload_error p x s) = ticks s"
  "count (upload_error p x s) = count s"
  by (simp_all add: upload_error_def)

text \<open>The three ways one turn of the upload loop can go.\<close>

lemma upload_item_outcomes:
  fixes s p e t i
  defines "s0 \<equiv> show_ui (status_line ''Uploading'' t i (snd p)) s"
  obtains
    (unreadable) x where "load_json e (fs s) p = Inl x"
      "upload_item e t i p s = show_ui (Progress (i + 1) t) (upload_error p x s0)"
  | (rejected) doc x where "load_json e (fs s) p = Inr doc"
      "insert_or_update_resume e (length (db_log s)) doc = Some x"
      "upload_item e t i p s =
         show_ui (Progress (i + 1) t) (upload_error p x (s0\<lparr>db_log := db_log s @ [doc]\<rparr>))"
  | (uploaded) doc where "load_json e (fs s) p = Inr doc"
      "insert_or_update_resume e (length (db_log s)) doc = None"
      "upload_item e t i p s =
         show_ui (Progress (i + 1) t)
           (s0\<lparr>db_log := db_log s @ [doc],
               count := Suc (count s),
               uploaded_files := uploaded_files s @ [snd p]\<rparr>)"
proof (cases "load_json e (fs s) p")
  case (Inl x)
  then have "upload_item e t i p s = show_ui (Progress (i + 1) t) (upload_error p x s0)"
    by (simp add: upload_item_def Let_def s0_def)
  with Inl show ?thesis by (rule unreadable)
next
  case (Inr doc)
  show ?thesis
  proof (cases "insert_or_update_resume e (length (db_log s)) doc")
    case (Some x)
    then have "upload_item e t i p s =
        show_ui (Progress (i + 1) t) (upload_error p x (s0\<lparr>db_log := db_log s @ [doc]\<rparr>))"
      using Inr by (simp add: upload_item_def Let_def s0_def)
    with Inr Some show ?thesis by (rule rejected)
  next
    case None
    then have "upload_item e t i p s =
        show_ui (Progress (i + 1) t)
          (s0\<lparr>db_log := db_log s @ [doc],
              count := Suc (count s),
              uploaded_files := uploaded_files s @ [snd p]\<rparr>)"
      using Inr by (simp add: upload_item_def Let_def s0_def)
    with Inr None show ?thesis by (rule uploaded)
  qed
qed

lemma upload_item_frame [simp]:
  "fs (upload_item e t i p s) = fs s"
  "standardized_files (upload_item e t i p s) = standardized_files s"
  "processed_files (upload_item e t i p s) = processed_files s"
  "llm_log (upload_item e t i p s) = llm_log s"
  by (cases rule: upload_item_outcomes [of e s p t i]; simp)+






lemma upload_item_ok:
  assumes "load_json e (fs s) p = Inr j" and "\<forall>n. insert_or_update_resume e n j = None"
  shows "uploaded_files (upload_item e t i p s) = uploaded_files s @ [snd p]"
  by (cases rule: upload_item_outcomes [of e s p t i]) (use assms in simp_all)

lemma upload_loop_frame [simp]:
  "fs (for_enumerate (upload_item e t) i ps s) = fs s"
  "standardized_files (for_enumerate (upload_item e t) i ps s) = standardized_files s"
  by (rule for_enumerate_invariant; simp)+

lemma upload_loop_ok:
  assumes good: "\<forall>p \<in> set ps. \<exists>j. load_json e (fs s) p = Inr j \<and> (\<forall>n. insert_or_update_resume e n j = None)"
  shows "uploaded_files (for_enumerate (upload_item e t) i ps s) = uploaded_files s @ map snd ps"
  using good
proof (induction ps arbitrary: i s)
  case Nil
  then show ?case by simp
next
  case (Cons p ps)
  from Cons.prems obtain j where j: "load_json e (fs s) p = Inr j" "\<forall>n. insert_or_update_resume e n j = None"
    by auto
  have 1: "uploaded_files (upload_item e t i p s) = uploaded_files s @ [snd p]"
    by (rule upload_item_ok [OF j])
  have "\<forall>q \<in> set ps. \<exists>j. load_json e (fs (upload_item e t i p s)) q = Inr j \<and>
          (\<forall>n. insert_or_update_resume e n j = None)"
    using Cons.prems by simp
  then have "uploaded_files (for_enumerate (upload_item e t) (Suc i) ps (upload_item e t i p s)) =
      uploaded_files (upload_item e t i p s) @ map snd ps"
    by (rule Cons.IH)
  then show ?case using 1 by simp
qed

lemma upload_start_fields [simp]:
  "fs (upload_start s) = fs s"
  "standardized_files (upload_start s) = standardized_files s"
  "uploaded_files (upload_start s) = uploaded_files s"
  "db_log (upload_start s) = db_log s"
  "ui (upload_start s) = ui s @ [Progress 0 1, Placeholder]"
  by (simp_all add: upload_start_def)

lemma upload_to_mongodb_run:
  assumes "db_init e = None"
  shows "upload_to_mongodb e s =
     (show_ui (summary_line ''Uploaded''
          (count (for_enumerate (upload_item e (length (standardized_files s))) 0 (standardized_files s)
             ((upload_start s)\<lparr>count := 0\<rparr>)))
          (length (standardized_files s)) ''resumes to MongoDB'')
        (for_enumerate (upload_item e (length (standardized_files s))) 0 (standardized_files s)
           ((upload_start s)\<lparr>count := 0\<rparr>)))\<lparr>db_upload_complete := True\<rparr>"
  using assms by (simp add: upload_to_mongodb_def Let_def)

lemma upload_to_mongodb_ok:
  assumes "db_init e = None"
    and good: "\<forall>p \<in> set (standardized_files s).
                 \<exists>j. load_json e (fs s) p = Inr j \<and> (\<forall>n. insert_or_update_resume e n j = None)"
  shows "uploaded_files (upload_to_mongodb e s) = uploaded_files s @ map snd (standardized_files s)"
    and "fs (upload_to_mongodb e s) = fs s"
    and "standardized_files (upload_to_mongodb e s) = standardized_files s"
proof -
  have "\<forall>p \<in> set (standardized_files s).
          \<exists>j. load_json e (fs ((upload_start s)\<lparr>count := 0\<rparr>)) p = Inr j \<and>
              (\<forall>n. insert_or_update_resume e n j = None)"
    using good by simp
  from upload_loop_ok [OF this]
  show "uploaded_files (upload_to_mongodb e s) = uploaded_files s @ map snd (standardized_files s)"
    by (simp add: upload_to_mongodb_run [OF assms(1)])
  show "fs (upload_to_mongodb e s) = fs s" "standardized_files (upload_to_mongodb e s) = standardized_files s"
    by (simp_all add: upload_to_mongodb_run [OF assms(1)])
qed

lemma upload_repeated:
  assumes "db_init e = None"
    and good: "\<forall>p \<in> set (standardized_files s).
                 \<exists>j. load_json e (fs s) p = Inr j \<and> (\<forall>n. insert_or_update_resume e n j = None)"
  shows "uploaded_files ((upload_to_mongodb e ^^ k) s) =
           uploaded_files s @ concat (replicate k (map snd (standardized_files s))) \<and>
         fs ((upload_to_mongodb e ^^ k) s) = fs s \<and>
         standardized_files ((upload_to_mongodb e ^^ k) s) = standardized_files s"
proof (induction k)
  case 0
  then show ?case by simp
next
  case (Suc k)
  let ?s = "(upload_to_mongodb e ^^ k) s"
  have r: "\<forall>p \<in> set (standardized_files ?s).
             \<exists>j. load_json e (fs ?s) p = Inr j \<and> (\<forall>n. insert_or_update_resume e n j = None)"
    using Suc good by simp
  have "concat (replicate k (map snd (standardized_files s))) @ map snd (standardized_files s) =
      concat (replicate (Suc k) (map snd (standardized_files s)))"
    by (metis concat.simps(2) concat_append replicate_Suc replicate_append_same append_Nil2 concat.simps(1))
  then show ?case
    using upload_to_mongodb_ok [OF assms(1) r] Suc by simp
qed

lemma parse_start_reset: "parse_start files (s\<lparr>processed_files := xs\<rparr>) = parse_start files s"
  by (simp add: parse_start_def Let_def)

lemma standardize_start_reset: "standardize_start (s\<lparr>standardized_files := xs\<rparr>) = standardize_start s"
  by (simp add: standardize_start_def Let_def)

subsection \<open>The list of uploaded files is never reset\<close>

text \<open>
  Claim C10. When the store manager is constructed and every upsert succeeds, that is, every
  standardized file is read and the store accepts its document, \<open>k\<close> runs of the store
  stage over a batch of \<open>n\<close> standardized files append the \<open>n\<close> names \<open>k\<close> times over to the
  list of uploaded files: the list grows by \<open>k * n\<close> entries and nothing resets it. The parse
  and standardize stages start from an empty list every time: what they do does not depend
  on what their list held.
\<close>

theorem store_stage_accumulates_uploaded_files:
  assumes "db_init e = None"
    and "\<forall>p \<in> set (standardized_files s).
           \<exists>j. load_json e (fs s) p = Inr j \<and> (\<forall>n. insert_or_update_resume e n j = None)"
  shows "uploaded_files ((upload_to_mongodb e ^^ k) s) =
           uploaded_files s @ concat (replicate k (map snd (standardized_files s))) \<and>
         length (uploaded_files ((upload_to_mongodb e ^^ k) s)) =
           length (uploaded_files s) + k * length (standardized_files s) \<and>
         process_uploaded_files e files (s\<lparr>processed_files := xs\<rparr>) = process_uploaded_files e files s \<and>
         standardize_resumes e (s\<lparr>standardized_files := ys\<rparr>) = standardize_resumes e s"
proof -
  have 1: "uploaded_files ((upload_to_mongodb e ^^ k) s) =
      uploaded_files s @ concat (replicate k (map snd (standardized_files s)))"
    using upload_repeated [OF assms, of k] by simp
  have 2: "length (concat (replicate k (map snd (standardized_files s)))) = k * length (standardized_files s)"
    by (induction k) simp_all
  have 3: "standardize_resumes e (s\<lparr>standardized_files := ys\<rparr>) = standardize_resumes e s"
    by (simp add: standardize_resumes_def standardize_start_reset)
  have 4: "process_uploaded_files e files (s\<lparr>processed_files := xs\<rparr>) = process_uploaded_files e files s"
    by (simp add: process_uploaded_files_def parse_start_reset)
  show ?thesis using 1 2 3 4 by simp
qed

theorem store_stage_accumulates_uploaded_files_witness:
  "db_init demo_env = None \<and>
   load_json demo_env (fs reuse_state) (StandardizedDir, ''C.json'') = Inr (JObj [(''name'', JStr ''Ada'')]) \<and>
   (\<forall>n. insert_or_update_resume demo_env n (JObj [(''name'', JStr ''Ada'')]) = None) \<and>
   uploaded_files ((upload_to_mongodb demo_env ^^ 2)
      (reuse_state\<lparr>standardized_files := [(StandardizedDir, ''C.json'')], uploaded_files := [''A.json'']\<rparr>)) =
     [''A.json'', ''C.json'', ''C.json''] \<and>
   length (uploaded_files ((upload_to_mongodb demo_env ^^ 2)
      (reuse_state\<lparr>standardized_files := [(StandardizedDir, ''C.json'')], uploaded_files := [''A.json'']\<rparr>))) =
     1 + 2 * 1"
  using store_stage_accumulates_uploaded_files [of demo_env
      "reuse_state\<lparr>standardized_files := [(StandardizedDir, ''C.json'')], uploaded_files := [''A.json'']\<rparr>" 2]
  by (simp add: demo_env_def reuse_state_def demo_state_def load_json_def numeral_2_eq_2)

subsection \<open>Every item is accounted for\<close>



















subsection \<open>The stages as wholes\<close>

lemma shown_since_standardize_start [simp]: "failures (shown_since s (standardize_start s)) = 0"
  by (simp add: shown_since_def)






lemma standardize_resumes_uploaded_files [simp]:
  "uploaded_files (snd (standardize_resumes e s)) = uploaded_files s"
proof (cases "standardizer_init e")
  case None
  then show ?thesis by (simp add: standardize_resumes_run standardize_loop_def)
next
  case (Some x)
  then show ?thesis by (simp add: standardize_resumes_refused)
qed





lemma upload_start_prefix: "prefix (ui s) (ui (upload_start s))"
  by (simp add: prefix_def)





subsection \<open>Failure is sticky\<close>


subsection \<open>The end-to-end scenario, computed\<close>










subsection \<open>Errors of items and of collaborators\<close>













end
